theory Spec2Isabelle
  imports Complex_Main
begin

section \<open>JavaScript values\<close>

text \<open>
  A JavaScript number is a finite value or one of the three special values. Durations
  are only ever compared with zero and handed on, so a finite double is taken as the real
  number it denotes.
\<close>

datatype jsnum = Fin real | PosInf | NegInf | NaN

text \<open>The values that can stand where the engine expects a duration or a path.\<close>

datatype jsval =
    JUndefined
  | JNull
  | JBool bool
  | JNum jsnum
  | JStr string
  | JArr "string list"

text \<open>\<^verbatim>\<open>n > 0\<close> on a number: false for NaN, true for Infinity.\<close>

fun gtZero :: "jsnum \<Rightarrow> bool" where
  "gtZero (Fin r) = (0 < r)"
| "gtZero PosInf = True"
| "gtZero NegInf = False"
| "gtZero NaN = False"

fun isFinite :: "jsnum \<Rightarrow> bool" where
  "isFinite (Fin r) = True"
| "isFinite PosInf = False"
| "isFinite NegInf = False"
| "isFinite NaN = False"

text \<open>
  \<^verbatim>\<open>typeof v === 'number' && v > 0\<close>; the comparison is reached for numbers only,
  so no coercion of other values takes place. The number is returned when the test holds.
\<close>

fun positiveNumber :: "jsval \<Rightarrow> jsnum option" where
  "positiveNumber (JNum n) = (if gtZero n then Some n else None)"
| "positiveNumber JUndefined = None"
| "positiveNumber JNull = None"
| "positiveNumber (JBool b) = None"
| "positiveNumber (JStr s) = None"
| "positiveNumber (JArr xs) = None"

text \<open>Truthiness, as \<^verbatim>\<open>!v\<close> and \<^verbatim>\<open>if (v)\<close> test it.\<close>

fun truthy :: "jsval \<Rightarrow> bool" where
  "truthy JUndefined = False"
| "truthy JNull = False"
| "truthy (JBool b) = b"
| "truthy (JNum n) = (n \<noteq> Fin 0 \<and> n \<noteq> NaN)"
| "truthy (JStr s) = (s \<noteq> [])"
| "truthy (JArr xs) = True"

text \<open>\<^verbatim>\<open>a ?? b\<close>: the right operand only when the left one is null or undefined.\<close>

fun nullish :: "jsval \<Rightarrow> jsval \<Rightarrow> jsval" where
  "nullish JUndefined b = b"
| "nullish JNull b = b"
| "nullish a b = a"

section \<open>Route tables\<close>

text \<open>
  A route block is an object read by property name: \<^verbatim>\<open>ms\<close> holds a number, every
  other key a path (\<^verbatim>\<open>string[] | number | undefined\<close> in the type declarations); a
  key that is not there reads as undefined. The route table maps a route key to its block.
  Both are dictionaries of own properties.
\<close>

type_synonym routeBlock = "string \<Rightarrow> jsval"
type_synonym routes = "string \<rightharpoonup> routeBlock"

definition emptyBlock :: routeBlock where
  "emptyBlock = (\<lambda>k. JUndefined)"

subsection \<open>engine.js: resolvePath, normalizePath, resolveMs\<close>

definition resolvePath :: "string \<Rightarrow> string \<Rightarrow> routes \<Rightarrow> string list" where
  "resolvePath targetState currentState routes =
     (case routes targetState of
        None \<Rightarrow> [targetState]
      | Some routeBlock \<Rightarrow>
          (case routeBlock currentState of
             JArr p \<Rightarrow> p
           | _ \<Rightarrow>
              (case routeBlock ''*'' of
                 JArr w \<Rightarrow> w
               | _ \<Rightarrow> [targetState])))"

definition normalizePath :: "string list \<Rightarrow> string \<Rightarrow> string list" where
  "normalizePath path currentState =
     (if length path > 0 \<and> hd path = currentState then tl path else path)"

definition resolveMs :: "jsval \<Rightarrow> jsval \<Rightarrow> jsval \<Rightarrow> jsnum" where
  "resolveMs actionMs routeMs jsonMs =
     (case positiveNumber actionMs of
        Some a \<Rightarrow> a
      | None \<Rightarrow>
          (case positiveNumber routeMs of
             Some r \<Rightarrow> r
           | None \<Rightarrow>
               (case positiveNumber jsonMs of
                  Some j \<Rightarrow> j
                | None \<Rightarrow> Fin 120)))"

subsection \<open>engine.js: expandSequence and expandDirect\<close>

record step =
  state :: string
  ms :: jsnum

record expansion =
  steps :: "step list"
  finalState :: string

datatype error =
    AbortError
  | UnknownState string string
  | StateNotFound string
  | UnknownAction string
  | NoSnapshots string
  | TypeError

text \<open>\<^verbatim>\<open>routes[key]?.ms\<close>: undefined when the table has no block for the key.\<close>

definition routeMsOf :: "routes \<Rightarrow> string \<Rightarrow> jsval" where
  "routeMsOf routes key = (case routes key of None \<Rightarrow> JUndefined | Some routeBlock \<Rightarrow> routeBlock ''ms'')"

text \<open>
  The set of known states is always handed over as a \<^verbatim>\<open>Set\<close> (its documented type,
  and what the only caller passes), so the guard \<^verbatim>\<open>validStates &&\<close> is true and the
  membership test decides.

  The inner loop of expandSequence over the states of one normalized path: it validates,
  computes the duration, pushes the step and moves the pointer.
\<close>

fun visitPath ::
  "string \<Rightarrow> routes \<Rightarrow> jsval \<Rightarrow> jsval \<Rightarrow> string set \<Rightarrow>
   string list \<Rightarrow> step list \<Rightarrow> string \<Rightarrow> error + (step list \<times> string)" where
  "visitPath routeKey routes actionMs jsonMs validStates [] acc current = Inr (acc, current)"
| "visitPath routeKey routes actionMs jsonMs validStates (nextState # rest) acc current =
     (if nextState \<notin> validStates then Inl (UnknownState routeKey nextState)
      else
        let routeMs = nullish (routeMsOf routes routeKey) (routeMsOf routes nextState);
            ms = resolveMs actionMs routeMs jsonMs
        in visitPath routeKey routes actionMs jsonMs validStates rest
             (acc @ [\<lparr>state = nextState, ms = ms\<rparr>]) nextState)"

text \<open>The outer loop over the instruction entries.\<close>

fun sequenceLoop ::
  "routes \<Rightarrow> jsval \<Rightarrow> jsval \<Rightarrow> string set \<Rightarrow>
   string list \<Rightarrow> step list \<Rightarrow> string \<Rightarrow> error + expansion" where
  "sequenceLoop routes actionMs jsonMs validStates [] acc current =
     Inr \<lparr>steps = acc, finalState = current\<rparr>"
| "sequenceLoop routes actionMs jsonMs validStates (routeKey # order) acc current =
     (let path = normalizePath (resolvePath routeKey current routes) current in
        if length path = 0 then sequenceLoop routes actionMs jsonMs validStates order acc current
        else
          (case visitPath routeKey routes actionMs jsonMs validStates path acc current of
             Inl err \<Rightarrow> Inl err
           | Inr (acc', current') \<Rightarrow>
               sequenceLoop routes actionMs jsonMs validStates order acc' current'))"

definition expandSequence ::
  "string list \<Rightarrow> string \<Rightarrow> routes \<Rightarrow> jsval \<Rightarrow> jsval \<Rightarrow> string set \<Rightarrow> error + expansion" where
  "expandSequence order currentState routes actionMs jsonMs validStates =
     sequenceLoop routes actionMs jsonMs validStates order [] currentState"

text \<open>
  expandDirect keeps the last element of the resolved path. On an empty path
  \<^verbatim>\<open>path[path.length - 1]\<close> is undefined, which no set of state names holds, so the
  validation throws with the text \<^verbatim>\<open>undefined\<close> in the message.
\<close>

fun directLoop ::
  "routes \<Rightarrow> jsval \<Rightarrow> jsval \<Rightarrow> string set \<Rightarrow>
   string list \<Rightarrow> step list \<Rightarrow> string \<Rightarrow> error + expansion" where
  "directLoop routes actionMs jsonMs validStates [] acc current =
     Inr \<lparr>steps = acc, finalState = current\<rparr>"
| "directLoop routes actionMs jsonMs validStates (routeKey # order) acc current =
     (let path = resolvePath routeKey current routes in
        if path = [] then Inl (UnknownState routeKey ''undefined'')
        else
          let targetState = last path in
            if targetState \<notin> validStates then Inl (UnknownState routeKey targetState)
            else if targetState = current
              then directLoop routes actionMs jsonMs validStates order acc current
            else
              let routeMs = nullish (routeMsOf routes routeKey) (routeMsOf routes targetState);
                  ms = resolveMs actionMs routeMs jsonMs
              in directLoop routes actionMs jsonMs validStates order
                   (acc @ [\<lparr>state = targetState, ms = ms\<rparr>]) targetState)"

definition expandDirect ::
  "string list \<Rightarrow> string \<Rightarrow> routes \<Rightarrow> jsval \<Rightarrow> jsval \<Rightarrow> string set \<Rightarrow> error + expansion" where
  "expandDirect order currentState routes actionMs jsonMs validStates =
     directLoop routes actionMs jsonMs validStates order [] currentState"

subsection \<open>The second copy of the engine (src/unnamed/part_002)\<close>

text \<open>
  The repository holds a second file with the same four functions. Its resolvePath,
  normalizePath and resolveMs are the ones above. Its two expansions differ: every
  instruction entry has to be a known state itself, the duration is always looked up under
  the visited state, and the direct expansion does not consult the route table at all.
  \<^verbatim>\<open>index.js\<close> imports \<^verbatim>\<open>./engine.js\<close>, the file modelled above.
\<close>

fun visitPath_part002 ::
  "routes \<Rightarrow> jsval \<Rightarrow> jsval \<Rightarrow> string set \<Rightarrow>
   string list \<Rightarrow> step list \<Rightarrow> string \<Rightarrow> error + (step list \<times> string)" where
  "visitPath_part002 routes actionMs jsonMs validStates [] acc current = Inr (acc, current)"
| "visitPath_part002 routes actionMs jsonMs validStates (nextState # rest) acc current =
     (if nextState \<notin> validStates then Inl (StateNotFound nextState)
      else
        let routeMs = routeMsOf routes nextState;
            ms = resolveMs actionMs routeMs jsonMs
        in visitPath_part002 routes actionMs jsonMs validStates rest
             (acc @ [\<lparr>state = nextState, ms = ms\<rparr>]) nextState)"

fun sequenceLoop_part002 ::
  "routes \<Rightarrow> jsval \<Rightarrow> jsval \<Rightarrow> string set \<Rightarrow>
   string list \<Rightarrow> step list \<Rightarrow> string \<Rightarrow> error + expansion" where
  "sequenceLoop_part002 routes actionMs jsonMs validStates [] acc current =
     Inr \<lparr>steps = acc, finalState = current\<rparr>"
| "sequenceLoop_part002 routes actionMs jsonMs validStates (targetState # order) acc current =
     (if targetState \<notin> validStates then Inl (StateNotFound targetState)
      else
        let path = normalizePath (resolvePath targetState current routes) current in
          (case visitPath_part002 routes actionMs jsonMs validStates path acc current of
             Inl err \<Rightarrow> Inl err
           | Inr (acc', current') \<Rightarrow>
               sequenceLoop_part002 routes actionMs jsonMs validStates order acc' current'))"

definition expandSequence_part002 ::
  "string list \<Rightarrow> string \<Rightarrow> routes \<Rightarrow> jsval \<Rightarrow> jsval \<Rightarrow> string set \<Rightarrow> error + expansion" where
  "expandSequence_part002 order currentState routes actionMs jsonMs validStates =
     sequenceLoop_part002 routes actionMs jsonMs validStates order [] currentState"

fun directLoop_part002 ::
  "routes \<Rightarrow> jsval \<Rightarrow> jsval \<Rightarrow> string set \<Rightarrow>
   string list \<Rightarrow> step list \<Rightarrow> string \<Rightarrow> error + expansion" where
  "directLoop_part002 routes actionMs jsonMs validStates [] acc current =
     Inr \<lparr>steps = acc, finalState = current\<rparr>"
| "directLoop_part002 routes actionMs jsonMs validStates (targetState # order) acc current =
     (if targetState \<notin> validStates then Inl (StateNotFound targetState)
      else if targetState = current
        then directLoop_part002 routes actionMs jsonMs validStates order acc current
      else
        let routeMs = routeMsOf routes targetState;
            ms = resolveMs actionMs routeMs jsonMs
        in directLoop_part002 routes actionMs jsonMs validStates order
             (acc @ [\<lparr>state = targetState, ms = ms\<rparr>]) targetState)"

definition expandDirect_part002 ::
  "string list \<Rightarrow> string \<Rightarrow> routes \<Rightarrow> jsval \<Rightarrow> jsval \<Rightarrow> string set \<Rightarrow> error + expansion" where
  "expandDirect_part002 order currentState routes actionMs jsonMs validStates =
     directLoop_part002 routes actionMs jsonMs validStates order [] currentState"

section \<open>Playback\<close>

subsection \<open>The engine instance\<close>

datatype event =
    StateChange string
  | ActionStart string
  | ActionEnd string
  | ErrorEvent error

text \<open>
  A normalized action as the parser leaves it. The iteration count is a natural number;
  a count that is missing or zero is falsy.
\<close>

record action =
  actionType :: string
  actionOrder :: "string list"
  actionMs :: jsval
  actionCount :: "nat option"
  actionMode :: "string option"

text \<open>
  The fields of a \<^verbatim>\<open>VectorFlow\<close> instance that playback reads and writes. Every
  \<^verbatim>\<open>AbortController\<close> ever created has a slot in \<open>vf_controllers\<close> holding its
  \<^verbatim>\<open>aborted\<close> flag, and is named by its index: a suspended \<^verbatim>\<open>play\<close> keeps the
  signal of its own controller while the field \<open>vf_abortController\<close> may already point
  elsewhere. \<open>vf_stateSnapshots\<close> is the key set of the snapshot map. The listeners are
  passive: \<open>vf_emitted\<close> records every notification in order.
\<close>

record engine =
  vf_actions :: "string \<rightharpoonup> action"
  vf_routes :: routes
  vf_ms :: jsval
  vf_validStates :: "string set"
  vf_stateSnapshots :: "string set"
  vf_currentState :: string
  vf_controllers :: "bool list"
  vf_abortController :: "nat option"
  vf_currentActionName :: "string option"
  vf_emitted :: "event list"

definition emit :: "event \<Rightarrow> engine \<Rightarrow> engine" where
  "emit ev e = e\<lparr>vf_emitted := vf_emitted e @ [ev]\<rparr>"

text \<open>\<^verbatim>\<open>signal.aborted\<close> of the controller with the given index.\<close>

definition signalAborted :: "engine \<Rightarrow> nat \<Rightarrow> bool" where
  "signalAborted e c = (c < length (vf_controllers e) \<and> vf_controllers e ! c)"

subsection \<open>index.js: stop\<close>

text \<open>
  \<^verbatim>\<open>if (this._currentActionName)\<close> is a truthiness test: null and the empty string
  both fail it.
\<close>

definition stop :: "engine \<Rightarrow> engine" where
  "stop e =
     (case vf_abortController e of
        None \<Rightarrow> e
      | Some c \<Rightarrow>
          let e1 = e\<lparr>vf_controllers := (vf_controllers e)[c := True]\<rparr>;
              e2 = e1\<lparr>vf_abortController := None\<rparr>
          in (case vf_currentActionName e2 of
                None \<Rightarrow> e2
              | Some name \<Rightarrow>
                  if name = [] then e2
                  else emit (ActionEnd name) (e2\<lparr>vf_currentActionName := None\<rparr>)))"

subsection \<open>player.js: playStep, playSteps, runAction\<close>

text \<open>
  Playback suspends only while a tween is in flight. What the outside world does during
  one tween is an \<open>envAct\<close>: nothing, or a call of \<^verbatim>\<open>stop()\<close>. The list gives the
  acts for the tweens to come, in order; once it is used up nothing interferes any more.
  A tween that is not aborted settles.
\<close>

datatype envAct = Quiet | CallStop

fun envApply :: "envAct \<Rightarrow> engine \<Rightarrow> engine" where
  "envApply Quiet e = e"
| "envApply CallStop e = stop e"

type_synonym world = "engine \<times> envAct list"

definition playStep :: "nat \<Rightarrow> world \<Rightarrow> world \<times> (error + unit)" where
  "playStep signal w =
     (if signalAborted (fst w) signal then (w, Inl AbortError)
      else
        let act = (case snd w of [] \<Rightarrow> Quiet | a # rest \<Rightarrow> a);
            w' = (envApply act (fst w), tl (snd w))
        in if signalAborted (fst w') signal then (w', Inl AbortError) else (w', Inr ()))"

text \<open>The callback that \<^verbatim>\<open>play\<close> hands to \<^verbatim>\<open>runAction\<close>.\<close>

definition onStateChange :: "string \<Rightarrow> engine \<Rightarrow> engine" where
  "onStateChange s e = emit (StateChange s) (e\<lparr>vf_currentState := s\<rparr>)"

fun playSteps ::
  "step list \<Rightarrow> string set \<Rightarrow> nat \<Rightarrow> string option \<Rightarrow> world \<Rightarrow> world \<times> (error + string option)" where
  "playSteps [] stateSnapshots signal lastState w = (w, Inr lastState)"
| "playSteps (st # rest) stateSnapshots signal lastState w =
     (if signalAborted (fst w) signal then (w, Inl AbortError)
      else if state st \<notin> stateSnapshots then (w, Inl (NoSnapshots (state st)))
      else
        (case playStep signal w of
           (w', Inl err) \<Rightarrow> (w', Inl err)
         | (w', Inr u) \<Rightarrow>
             playSteps rest stateSnapshots signal (Some (state st))
               (onStateChange (state st) (fst w'), snd w')))"

text \<open>\<^verbatim>\<open>finalState || current\<close>: null and the empty string are falsy.\<close>

definition orCurrent :: "string option \<Rightarrow> string \<Rightarrow> string" where
  "orCurrent final current =
     (case final of
        None \<Rightarrow> current
      | Some s \<Rightarrow> if s = [] then current else s)"

text \<open>\<^verbatim>\<open>action.count || 99999\<close>.\<close>

definition iterationCount :: "action \<Rightarrow> nat" where
  "iterationCount a =
     (case actionCount a of
        None \<Rightarrow> 99999
      | Some c \<Rightarrow> if c = 0 then 99999 else c)"

definition expandFor ::
  "action \<Rightarrow> string \<Rightarrow> routes \<Rightarrow> jsval \<Rightarrow> string set \<Rightarrow> error + expansion" where
  "expandFor a current routes jsonMs validStates =
     (if actionMode a = Some ''direct''
      then expandDirect (actionOrder a) current routes (actionMs a) jsonMs validStates
      else expandSequence (actionOrder a) current routes (actionMs a) jsonMs validStates)"

text \<open>
  The \<^verbatim>\<open>for\<close> loop of a loop action; its body does not read the counter, so the
  recursion is on the number of iterations still to run.
\<close>

fun loopIterations ::
  "nat \<Rightarrow> action \<Rightarrow> string \<Rightarrow> routes \<Rightarrow> jsval \<Rightarrow> string set \<Rightarrow> string set \<Rightarrow> nat \<Rightarrow>
   world \<Rightarrow> world \<times> (error + string)" where
  "loopIterations 0 a current routes jsonMs validStates stateSnapshots signal w =
     (w, Inr current)"
| "loopIterations (Suc n) a current routes jsonMs validStates stateSnapshots signal w =
     (if signalAborted (fst w) signal then (w, Inl AbortError)
      else
        (case expandFor a current routes jsonMs validStates of
           Inl err \<Rightarrow> (w, Inl err)
         | Inr result \<Rightarrow>
             if length (steps result) > 0 then
               (case playSteps (steps result) stateSnapshots signal None w of
                  (w', Inl err) \<Rightarrow> (w', Inl err)
                | (w', Inr final) \<Rightarrow>
                    loopIterations n a (orCurrent final current) routes jsonMs
                      validStates stateSnapshots signal w')
             else
               loopIterations n a current routes jsonMs validStates stateSnapshots signal w))"

definition runAction ::
  "action \<Rightarrow> string \<Rightarrow> routes \<Rightarrow> jsval \<Rightarrow> string set \<Rightarrow> string set \<Rightarrow> nat \<Rightarrow>
   world \<Rightarrow> world \<times> (error + string)" where
  "runAction a currentState routes jsonMs validStates stateSnapshots signal w =
     (if actionType a = ''loop'' then
        loopIterations (iterationCount a) a currentState routes jsonMs validStates
          stateSnapshots signal w
      else
        (case expandSequence (actionOrder a) currentState routes (actionMs a) jsonMs validStates of
           Inl err \<Rightarrow> (w, Inl err)
         | Inr result \<Rightarrow>
             if length (steps result) > 0 then
               (case playSteps (steps result) stateSnapshots signal None w of
                  (w', Inl err) \<Rightarrow> (w', Inl err)
                | (w', Inr final) \<Rightarrow> (w', Inr (orCurrent final currentState)))
             else (w, Inr currentState)))"

subsection \<open>index.js: the getters isPlaying, currentAction, currentState\<close>

definition isPlaying :: "engine \<Rightarrow> bool" where
  "isPlaying e =
     (case vf_abortController e of
        None \<Rightarrow> False
      | Some c \<Rightarrow> \<not> signalAborted e c)"

definition currentAction :: "engine \<Rightarrow> string option" where
  "currentAction e = vf_currentActionName e"

definition currentState :: "engine \<Rightarrow> string" where
  "currentState e = vf_currentState e"

subsection \<open>index.js: play\<close>

text \<open>
  The result is the promise's outcome: \<open>Inr ()\<close> when it resolves, \<open>Inl err\<close> when it
  rejects with \<open>err\<close>.
\<close>

text \<open>
  \<^verbatim>\<open>this._config.actions\<close> is a plain object that the parser fills by assignment, one
  property for each action of the configuration; \<open>vf_actions\<close> holds the actions under
  the names the configuration gave them. Reading a property of the object, as
  \<^verbatim>\<open>this._config.actions[actionName]\<close> does, finds more than these. The object
  inherits the properties of \<^verbatim>\<open>Object.prototype\<close>, all of them truthy. And the
  assignment of an action named \<^verbatim>\<open>__proto__\<close> sets the prototype of the object instead
  of a property: that action is what the name \<^verbatim>\<open>__proto__\<close> reads from then on, and its
  five fields are inherited under their own names.
\<close>

definition objectPrototypeKeys :: "string list" where
  "objectPrototypeKeys =
     [''constructor'', ''__defineGetter__'', ''__defineSetter__'', ''hasOwnProperty'',
      ''__lookupGetter__'', ''__lookupSetter__'', ''isPrototypeOf'', ''propertyIsEnumerable'',
      ''toString'', ''valueOf'', ''__proto__'', ''toLocaleString'']"

text \<open>
  The truthiness of the field of a normalized action that a name reads, if it names one.
  The type is a string, the order an array, the duration a number or undefined, the count a
  number or undefined, the mode a string or undefined.
\<close>

definition inheritedField :: "action \<Rightarrow> string \<Rightarrow> bool option" where
  "inheritedField p name =
     (if name = ''type'' then Some (actionType p \<noteq> [])
      else if name = ''order'' then Some True
      else if name = ''ms'' then Some (truthy (actionMs p))
      else if name = ''count'' then
        Some (case actionCount p of None \<Rightarrow> False | Some c \<Rightarrow> c \<noteq> 0)
      else if name = ''mode'' then
        Some (case actionMode p of None \<Rightarrow> False | Some m \<Rightarrow> m \<noteq> [])
      else None)"

text \<open>
  What \<^verbatim>\<open>this._config.actions[actionName]\<close> reads: an action, some other truthy value
  that the object inherits, or a falsy value (undefined where there is no such property).
\<close>

datatype lookup = FoundAction action | FoundOther | NotFound

definition lookupAction :: "(string \<rightharpoonup> action) \<Rightarrow> string \<Rightarrow> lookup" where
  "lookupAction actions name =
     (case actions name of
        Some a \<Rightarrow> FoundAction a
      | None \<Rightarrow>
          (case (case actions ''__proto__'' of
                   None \<Rightarrow> None
                 | Some p \<Rightarrow> inheritedField p name) of
             Some t \<Rightarrow> if t then FoundOther else NotFound
           | None \<Rightarrow> if name \<in> set objectPrototypeKeys then FoundOther else NotFound))"

text \<open>
  A truthy value that is not an action has no \<^verbatim>\<open>order\<close>: reading
  \<^verbatim>\<open>action.order.length\<close> throws a TypeError, before the \<^verbatim>\<open>try\<close> and with
  nothing emitted, and the promise rejects with it.
\<close>

definition play :: "string \<Rightarrow> world \<Rightarrow> world \<times> (error + unit)" where
  "play actionName w =
     (case lookupAction (vf_actions (fst w)) actionName of
        NotFound \<Rightarrow>
          ((emit (ErrorEvent (UnknownAction actionName)) (fst w), snd w),
           Inl (UnknownAction actionName))
      | FoundOther \<Rightarrow> (w, Inl TypeError)
      | FoundAction a \<Rightarrow>
          if length (actionOrder a) = 0 then (w, Inr ())
          else
            let e1 = stop (fst w);
                c = length (vf_controllers e1);
                e2 = e1\<lparr>vf_controllers := vf_controllers e1 @ [False],
                        vf_abortController := Some c\<rparr>;
                e3 = e2\<lparr>vf_currentActionName := Some actionName\<rparr>;
                e4 = emit (ActionStart actionName) e3
            in
              (case runAction a (vf_currentState e4) (vf_routes e4) (vf_ms e4)
                      (vf_validStates e4) (vf_stateSnapshots e4) c (e4, snd w) of
                 (w', Inr final) \<Rightarrow>
                   let e5 = (if final \<noteq> [] then (fst w')\<lparr>vf_currentState := final\<rparr>
                             else fst w');
                       e6 = e5\<lparr>vf_currentActionName := None\<rparr>
                   in ((emit (ActionEnd actionName) e6, snd w'), Inr ())
               | (w', Inl err) \<Rightarrow>
                   if err = AbortError then (w', Inr ())
                   else
                     ((emit (ErrorEvent err) ((fst w')\<lparr>vf_currentActionName := None\<rparr>), snd w'),
                      Inl err)))"

section \<open>Transforms\<close>

subsection \<open>utils.js: parseTransform and buildTransform\<close>

text \<open>
  The five channels of a transform. The channel values are numbers; the two built-ins the
  code applies to them, the conversion of a number to a string in a template literal and
  \<^verbatim>\<open>parseFloat\<close>, are parameters of the functions below. The field \<^verbatim>\<open>rotate\<close> of the
  source is \<open>rotateDeg\<close> here.
\<close>

record 'n transform =
  translateX :: 'n
  translateY :: 'n
  scaleX :: 'n
  scaleY :: 'n
  rotateDeg :: 'n

definition identityTransform :: "('n::{zero,one}) transform" where
  "identityTransform = \<lparr>translateX = 0, translateY = 0, scaleX = 1, scaleY = 1, rotateDeg = 0\<rparr>"

text \<open>
  The character classes of the three regular expressions: \<^verbatim>\<open>\d\<close>, \<^verbatim>\<open>[-\d.]\<close>,
  \<^verbatim>\<open>\s\<close> and \<^verbatim>\<open>[,\s]\<close>. A string is a list of 8-bit code units, so \<^verbatim>\<open>\s\<close> is
  its part below 256.
\<close>

definition digitChar :: "char \<Rightarrow> bool" where
  "digitChar c = (c \<in> set ''0123456789'')"

definition numChar :: "char \<Rightarrow> bool" where
  "numChar c = (c = CHR ''-'' \<or> digitChar c \<or> c = CHR ''.'')"

definition spaceChar :: "char \<Rightarrow> bool" where
  "spaceChar c = (c \<in> set [CHR '' '', CHR 0x09, CHR 0x0A, CHR 0x0B, CHR 0x0C, CHR 0x0D, CHR 0xA0])"

definition sepChar :: "char \<Rightarrow> bool" where
  "sepChar c = (c = CHR '','' \<or> spaceChar c)"

text \<open>
  The regular expressions of parseTransform are sequences of these atoms: a literal, one
  character of a class, \<^verbatim>\<open>c*\<close>, a captured \<^verbatim>\<open>(c+)\<close>, and an optional non-capturing
  group \<^verbatim>\<open>(?:...)?\<close>. \<open>matchAt\<close> matches a sequence at the start of a string the way
  a backtracking matcher does: the quantifiers are greedy and give characters back one by
  one, the optional group is tried before it is skipped, and the first alternative that
  lets the rest match wins. The result lists the captures in order; the capture of a
  skipped group is undefined. \<open>search\<close> is \<^verbatim>\<open>String.prototype.match\<close> for a regular
  expression without flags: the match at the leftmost position that has one.
\<close>

datatype atom =
    Lit string
  | OneOf "char \<Rightarrow> bool"
  | StarOf "char \<Rightarrow> bool"
  | CapPlus "char \<Rightarrow> bool"
  | OptGrp "atom list"

fun firstMatch :: "'a option list \<Rightarrow> 'a option" where
  "firstMatch [] = None"
| "firstMatch (Some r # rest) = Some r"
| "firstMatch (None # rest) = firstMatch rest"

fun capCount :: "atom list \<Rightarrow> nat" where
  "capCount [] = 0"
| "capCount (CapPlus c # rest) = Suc (capCount rest)"
| "capCount (OptGrp g # rest) = capCount g + capCount rest"
| "capCount (a # rest) = capCount rest"

fun matchAt :: "atom list \<Rightarrow> string \<Rightarrow> string option list \<Rightarrow> string option list option" where
  "matchAt [] s caps = Some caps"
| "matchAt (Lit l # rest) s caps =
     (if take (length l) s = l then matchAt rest (drop (length l) s) caps else None)"
| "matchAt (OneOf c # rest) s caps =
     (case s of [] \<Rightarrow> None | x # xs \<Rightarrow> if c x then matchAt rest xs caps else None)"
| "matchAt (StarOf c # rest) s caps =
     firstMatch (map (\<lambda>k. matchAt rest (drop k s) caps)
                     (rev [0..<Suc (length (takeWhile c s))]))"
| "matchAt (CapPlus c # rest) s caps =
     firstMatch (map (\<lambda>k. matchAt rest (drop k s) (caps @ [Some (take k s)]))
                     (rev [1..<Suc (length (takeWhile c s))]))"
| "matchAt (OptGrp g # rest) s caps =
     (case matchAt (g @ rest) s caps of
        Some r \<Rightarrow> Some r
      | None \<Rightarrow> matchAt rest s (caps @ replicate (capCount g) None))"

definition search :: "atom list \<Rightarrow> string \<Rightarrow> string option list option" where
  "search re s = firstMatch (map (\<lambda>i. matchAt re (drop i s) []) [0..<Suc (length s)])"


text \<open>
  \<^verbatim>\<open>/translate\(\s*([-\d.]+)\s*[,\s]\s*([-\d.]+)\s*\)/\<close>,
  \<^verbatim>\<open>/scale\(\s*([-\d.]+)(?:\s*[,\s]\s*([-\d.]+))?\s*\)/\<close> and
  \<^verbatim>\<open>/rotate\(\s*([-\d.]+)/\<close>.
\<close>

definition translateRe :: "atom list" where
  "translateRe =
     [Lit ''translate('', StarOf spaceChar, CapPlus numChar, StarOf spaceChar, OneOf sepChar,
      StarOf spaceChar, CapPlus numChar, StarOf spaceChar, Lit '')'']"

definition scaleRe :: "atom list" where
  "scaleRe =
     [Lit ''scale('', StarOf spaceChar, CapPlus numChar,
      OptGrp [StarOf spaceChar, OneOf sepChar, StarOf spaceChar, CapPlus numChar],
      StarOf spaceChar, Lit '')'']"

definition rotateRe :: "atom list" where
  "rotateRe = [Lit ''rotate('', StarOf spaceChar, CapPlus numChar]"

definition parseTransform :: "(string \<Rightarrow> 'n) \<Rightarrow> string option \<Rightarrow> ('n::{zero,one}) transform" where
  "parseTransform parseFloat transformStr =
     (case transformStr of
        None \<Rightarrow> identityTransform
      | Some s \<Rightarrow>
          if s = [] then identityTransform
          else
            let r0 = identityTransform;
                r1 = (case search translateRe s of
                        Some [Some a, Some b] \<Rightarrow>
                          r0\<lparr>translateX := parseFloat a, translateY := parseFloat b\<rparr>
                      | _ \<Rightarrow> r0);
                r2 = (case search scaleRe s of
                        Some [Some a, b] \<Rightarrow>
                          r1\<lparr>scaleX := parseFloat a,
                             scaleY := (case b of Some b' \<Rightarrow> parseFloat b' | None \<Rightarrow> parseFloat a)\<rparr>
                      | _ \<Rightarrow> r1);
                r3 = (case search rotateRe s of
                        Some [Some a] \<Rightarrow> r2\<lparr>rotateDeg := parseFloat a\<rparr>
                      | _ \<Rightarrow> r2)
            in r3)"

text \<open>\<^verbatim>\<open>parts.join(' ')\<close>.\<close>

fun joinSpace :: "string list \<Rightarrow> string" where
  "joinSpace [] = []"
| "joinSpace [p] = p"
| "joinSpace (p # q # rest) = p @ '' '' @ joinSpace (q # rest)"

definition buildTransform :: "('n \<Rightarrow> string) \<Rightarrow> ('n::{zero,one}) transform \<Rightarrow> string option" where
  "buildTransform str c =
     (let parts0 = [];
          parts1 = (if translateX c \<noteq> 0 \<or> translateY c \<noteq> 0
                    then parts0 @ [''translate('' @ str (translateX c) @ '','' @ str (translateY c) @ '')'']
                    else parts0);
          parts2 = (if rotateDeg c \<noteq> 0
                    then parts1 @ [''rotate('' @ str (rotateDeg c) @ '')'']
                    else parts1);
          parts3 = (if scaleX c \<noteq> 1 \<or> scaleY c \<noteq> 1
                    then parts2 @ [''scale('' @ str (scaleX c) @ '','' @ str (scaleY c) @ '')'']
                    else parts2)
      in if length parts3 > 0 then Some (joinSpace parts3) else None)"

section \<open>Reference definitions and example configurations\<close>

text \<open>
  The definitions of this section are not code of the engine. They say in the words of the
  specification what the code is compared with, or fix the concrete configurations that
  the examples run on.
\<close>

text \<open>
  The duration resolver as the specification words it: the first candidate that is a
  finite number strictly greater than zero, otherwise 120.
\<close>

fun finitePositiveNumber :: "jsval \<Rightarrow> jsnum option" where
  "finitePositiveNumber (JNum n) = (if isFinite n \<and> gtZero n then Some n else None)"
| "finitePositiveNumber JUndefined = None"
| "finitePositiveNumber JNull = None"
| "finitePositiveNumber (JBool b) = None"
| "finitePositiveNumber (JStr s) = None"
| "finitePositiveNumber (JArr xs) = None"

definition resolveMs_spec :: "jsval \<Rightarrow> jsval \<Rightarrow> jsval \<Rightarrow> jsnum" where
  "resolveMs_spec a r j =
     (case List.find (\<lambda>v. finitePositiveNumber v \<noteq> None) [a, r, j] of
        Some (JNum n) \<Rightarrow> n
      | _ \<Rightarrow> Fin 120)"

text \<open>
  The step that expansion emits for a visited state reached through an instruction
  entry: the entry's own route-block duration if it has one, else the visited state's.
\<close>

definition stepFor :: "routes \<Rightarrow> jsval \<Rightarrow> jsval \<Rightarrow> string \<Rightarrow> string \<Rightarrow> step" where
  "stepFor R a j routeKey visited =
     \<lparr>state = visited,
      ms = resolveMs a (nullish (routeMsOf R routeKey) (routeMsOf R visited)) j\<rparr>"

text \<open>A step whose duration is resolved under its own state.\<close>

definition ownDuration :: "routes \<Rightarrow> jsval \<Rightarrow> jsval \<Rightarrow> step \<Rightarrow> bool" where
  "ownDuration R a j st = (ms st = resolveMs a (routeMsOf R (state st)) j)"

text \<open>
  The states a sequence expansion visits, each with the instruction entry that led to
  it: every entry is resolved against the pointer that the entries before it left.
\<close>

fun sequenceVisits :: "routes \<Rightarrow> string list \<Rightarrow> string \<Rightarrow> (string \<times> string) list" where
  "sequenceVisits R [] current = []"
| "sequenceVisits R (routeKey # rest) current =
     (let path = normalizePath (resolvePath routeKey current R) current
      in map (Pair routeKey) path @ sequenceVisits R rest (last (current # path)))"

text \<open>
  The direct expansion in the order of the specification's words: the destination is the
  last element of the resolved path; if it equals the current pointer the entry is skipped;
  otherwise it is validated, one step is appended and the pointer advances. A path without
  elements has no destination and fails as in the code.
\<close>

fun directLoop_spec ::
  "routes \<Rightarrow> jsval \<Rightarrow> jsval \<Rightarrow> string set \<Rightarrow>
   string list \<Rightarrow> step list \<Rightarrow> string \<Rightarrow> error + expansion" where
  "directLoop_spec R a j V [] acc current = Inr \<lparr>steps = acc, finalState = current\<rparr>"
| "directLoop_spec R a j V (entry # rest) acc current =
     (let path = resolvePath entry current R in
        if path = [] then Inl (UnknownState entry ''undefined'')
        else
          let destination = last path in
            if destination = current then directLoop_spec R a j V rest acc current
            else if destination \<notin> V then Inl (UnknownState entry destination)
            else directLoop_spec R a j V rest (acc @ [stepFor R a j entry destination])
                   destination)"


text \<open>An alias route with a duration of its own, leading to a state with another one.\<close>

definition aliasRoutes :: routes where
  "aliasRoutes =
     [''go'' \<mapsto> emptyBlock(''*'' := JArr [''a''], ''ms'' := JNum (Fin 50)),
      ''a'' \<mapsto> emptyBlock(''ms'' := JNum (Fin 70))]"

text \<open>The route table \<^verbatim>\<open>{ right: { "*": ["center","right"] } }\<close>.\<close>

definition rightRoutes :: routes where
  "rightRoutes = [''right'' \<mapsto> emptyBlock(''*'' := JArr [''center'', ''right''])]"

text \<open>A block with a wildcard and a source-specific path, and a block with neither.\<close>

definition bothRoutes :: routes where
  "bothRoutes =
     [''right'' \<mapsto> emptyBlock(''*'' := JArr [''center'', ''right''], ''left'' := JArr [''right'']),
      ''center'' \<mapsto> emptyBlock(''ms'' := JNum (Fin 60))]"

text \<open>
  An engine instance over the poses left, center and right, standing at left, with the
  route table above, a global duration of 120 and nothing playing. It has a sequence
  action \<^verbatim>\<open>go\<close> and the same action registered under the empty name.
\<close>

definition goRight :: action where
  "goRight =
     \<lparr>actionType = ''sequence'', actionOrder = [''right''], actionMs = JUndefined,
      actionCount = None, actionMode = None\<rparr>"

definition poseEngine :: engine where
  "poseEngine =
     \<lparr>vf_actions = [''go'' \<mapsto> goRight, [] \<mapsto> goRight],
      vf_routes = rightRoutes,
      vf_ms = JNum (Fin 120),
      vf_validStates = {''left'', ''center'', ''right''},
      vf_stateSnapshots = {''left'', ''center'', ''right''},
      vf_currentState = ''left'',
      vf_controllers = [],
      vf_abortController = None,
      vf_currentActionName = None,
      vf_emitted = []\<rparr>"

text \<open>The engine after every step of a list has settled, in order.\<close>

definition settleAll :: "step list \<Rightarrow> engine \<Rightarrow> engine" where
  "settleAll ss e = foldl (\<lambda>en st. onStateChange (state st) en) e ss"


fun isErrorEvent :: "event \<Rightarrow> bool" where
  "isErrorEvent (ErrorEvent err) = True"
| "isErrorEvent (StateChange s) = False"
| "isErrorEvent (ActionStart n) = False"
| "isErrorEvent (ActionEnd n) = False"

text \<open>The notifications emitted on the way from one engine state to a later one.\<close>

definition newEvents :: "engine \<Rightarrow> engine \<Rightarrow> event list" where
  "newEvents e e' = drop (length (vf_emitted e)) (vf_emitted e')"

text \<open>
  Between two engine states nothing went out on the error channel: the later log extends
  the earlier one by notifications none of which is an error.
\<close>

definition silent :: "engine \<Rightarrow> engine \<Rightarrow> bool" where
  "silent e e' =
     (take (length (vf_emitted e)) (vf_emitted e') = vf_emitted e \<and>
      filter isErrorEvent (newEvents e e') = [])"






text \<open>
  A number is written in plain decimal form when its string consists of digits, the minus
  sign and the decimal point only, and \<^verbatim>\<open>parseFloat\<close> reads the number back from it.
\<close>

definition plainDecimal :: "('n \<Rightarrow> string) \<Rightarrow> (string \<Rightarrow> 'n) \<Rightarrow> 'n \<Rightarrow> bool" where
  "plainDecimal str parseFloat x =
     (str x \<noteq> [] \<and> list_all numChar (str x) \<and> parseFloat (str x) = x)"

text \<open>
  Decimal writing and reading of integers, to stand for the two built-ins where an example
  needs them.
\<close>

fun showNat :: "nat \<Rightarrow> string" where
  "showNat n =
     (if n < 10 then [''0123456789'' ! n]
      else showNat (n div 10) @ [''0123456789'' ! (n mod 10)])"

definition showInt :: "int \<Rightarrow> string" where
  "showInt i = (if i < 0 then ''-'' @ showNat (nat (- i)) else showNat (nat i))"

definition digitValue :: "char \<Rightarrow> nat" where
  "digitValue ch = length (takeWhile (\<lambda>d. d \<noteq> ch) ''0123456789'')"

definition readNat :: "string \<Rightarrow> nat" where
  "readNat s = foldl (\<lambda>a ch. 10 * a + digitValue ch) 0 s"

definition readInt :: "string \<Rightarrow> int" where
  "readInt s =
     (case s of
        [] \<Rightarrow> 0
      | ch # r \<Rightarrow> if ch = CHR ''-'' then - int (readNat r) else int (readNat s))"

section \<open>Route resolution\<close>

lemmas engine_eval =
  expandSequence_def expandDirect_def resolvePath_def normalizePath_def routeMsOf_def
  resolveMs_def emptyBlock_def Let_def

text \<open>
  C3. resolvePath returns [target] when the table has no block for the target; otherwise
  the path stored for the source, whether or not a wildcard is there too; otherwise the
  wildcard path; otherwise [target].
\<close>

theorem resolvePath_lookup_order:
  "(routes target = None \<longrightarrow> resolvePath target source routes = [target]) \<and>
   (\<forall>b p. routes target = Some b \<and> b source = JArr p \<longrightarrow>
      resolvePath target source routes = p) \<and>
   (\<forall>b w. routes target = Some b \<and> (\<forall>p. b source \<noteq> JArr p) \<and> b ''*'' = JArr w \<longrightarrow>
      resolvePath target source routes = w) \<and>
   (\<forall>b. routes target = Some b \<and> (\<forall>p. b source \<noteq> JArr p) \<and> (\<forall>w. b ''*'' \<noteq> JArr w) \<longrightarrow>
      resolvePath target source routes = [target])"
  by (auto simp: resolvePath_def split: option.splits jsval.splits)

theorem resolvePath_lookup_order_witness:
  "resolvePath ''up'' ''left'' bothRoutes = [''up''] \<and>
   resolvePath ''right'' ''left'' bothRoutes = [''right''] \<and>
   resolvePath ''right'' ''center'' bothRoutes = [''center'', ''right''] \<and>
   resolvePath ''center'' ''left'' bothRoutes = [''center'']"
proof -
  have none: "bothRoutes ''up'' = None"
    by (simp add: bothRoutes_def)
  have r: "bothRoutes ''right'' =
      Some (emptyBlock(''*'' := JArr [''center'', ''right''], ''left'' := JArr [''right'']))"
    by (simp add: bothRoutes_def)
  have c: "bothRoutes ''center'' = Some (emptyBlock(''ms'' := JNum (Fin 60)))"
    by (simp add: bothRoutes_def)
  have 1: "resolvePath ''up'' ''left'' bothRoutes = [''up'']"
    using resolvePath_lookup_order[of bothRoutes "''up''" "''left''"] none by blast
  have 2: "resolvePath ''right'' ''left'' bothRoutes = [''right'']"
    using resolvePath_lookup_order[of bothRoutes "''right''" "''left''"] r by simp
  have 3: "resolvePath ''right'' ''center'' bothRoutes = [''center'', ''right'']"
    using resolvePath_lookup_order[of bothRoutes "''right''" "''center''"] r
    by (simp add: emptyBlock_def)
  have 4: "resolvePath ''center'' ''left'' bothRoutes = [''center'']"
    using resolvePath_lookup_order[of bothRoutes "''center''" "''left''"] c
    by (simp add: emptyBlock_def)
  from 1 2 3 4 show ?thesis by blast
qed

section \<open>Duration precedence\<close>

text \<open>
  C4, as the specification states it, fails on the code: a candidate that is positive
  Infinity is a number greater than zero for the code and is returned, where the
  specification treats it as absent and moves on to the next candidate.
\<close>

theorem resolveMs_infinity_counterexample:
  "resolveMs (JNum PosInf) (JNum (Fin 10)) (JNum (Fin 20)) = PosInf \<and>
   resolveMs_spec (JNum PosInf) (JNum (Fin 10)) (JNum (Fin 20)) = Fin 10"
  by (simp add: resolveMs_def resolveMs_spec_def)

lemma positiveNumber_Some: "positiveNumber v = Some n \<longleftrightarrow> v = JNum n \<and> gtZero n"
  by (cases v) auto

text \<open>
  C4, amended. resolveMs returns the first of actionMs, routeMs, globalMs that is a number
  strictly greater than zero, positive Infinity included, and 120 when none is. Every other
  candidate (undefined, a value that is not a number, NaN, zero, a negative number) is
  treated as absent: the result is the same as with undefined in its place. The result is
  therefore always greater than zero. The five examples of the specification hold.
\<close>

theorem resolveMs_precedence:
  "(positiveNumber a = Some n \<longrightarrow> resolveMs a r j = n) \<and>
   (positiveNumber r = Some n \<longrightarrow> resolveMs JUndefined r j = n) \<and>
   (positiveNumber j = Some n \<longrightarrow> resolveMs JUndefined JUndefined j = n) \<and>
   resolveMs JUndefined JUndefined JUndefined = Fin 120 \<and>
   (positiveNumber a = None \<longrightarrow> resolveMs a r j = resolveMs JUndefined r j) \<and>
   (positiveNumber r = None \<longrightarrow> resolveMs a r j = resolveMs a JUndefined j) \<and>
   (positiveNumber j = None \<longrightarrow> resolveMs a r j = resolveMs a r JUndefined) \<and>
   (positiveNumber v = Some n \<longleftrightarrow> v = JNum n \<and> gtZero n) \<and>
   gtZero (resolveMs a r j) \<and>
   resolveMs (JNum (Fin 5)) (JNum (Fin 10)) (JNum (Fin 20)) = Fin 5 \<and>
   resolveMs JUndefined (JNum (Fin 10)) (JNum (Fin 20)) = Fin 10 \<and>
   resolveMs JUndefined JUndefined (JNum (Fin 20)) = Fin 20 \<and>
   resolveMs (JNum (Fin 0)) (JNum (Fin 10)) (JNum (Fin 20)) = Fin 10"
proof -
  have g: "gtZero (resolveMs a r j)"
    by (auto simp: resolveMs_def positiveNumber_Some split: option.splits)
  have p: "positiveNumber v = Some n \<longleftrightarrow> v = JNum n \<and> gtZero n"
    by (rule positiveNumber_Some)
  have absent:
    "(positiveNumber a = None \<longrightarrow> resolveMs a r j = resolveMs JUndefined r j) \<and>
     (positiveNumber r = None \<longrightarrow> resolveMs a r j = resolveMs a JUndefined j) \<and>
     (positiveNumber j = None \<longrightarrow> resolveMs a r j = resolveMs a r JUndefined)"
    by (auto simp: resolveMs_def split: option.splits)
  have first:
    "(positiveNumber a = Some n \<longrightarrow> resolveMs a r j = n) \<and>
     (positiveNumber r = Some n \<longrightarrow> resolveMs JUndefined r j = n) \<and>
     (positiveNumber j = Some n \<longrightarrow> resolveMs JUndefined JUndefined j = n) \<and>
     resolveMs JUndefined JUndefined JUndefined = Fin 120"
    by (simp add: resolveMs_def)
  have examples:
    "resolveMs (JNum (Fin 5)) (JNum (Fin 10)) (JNum (Fin 20)) = Fin 5 \<and>
     resolveMs JUndefined (JNum (Fin 10)) (JNum (Fin 20)) = Fin 10 \<and>
     resolveMs JUndefined JUndefined (JNum (Fin 20)) = Fin 20 \<and>
     resolveMs (JNum (Fin 0)) (JNum (Fin 10)) (JNum (Fin 20)) = Fin 10"
    by (simp add: resolveMs_def)
  show ?thesis
    using g p absent first examples by blast
qed

theorem resolveMs_precedence_witness:
  "resolveMs (JNum (Fin 7)) (JStr ''fast'') JNull = Fin 7 \<and>
   resolveMs (JNum NaN) (JNum (Fin 10)) (JNum (Fin 20)) = resolveMs JUndefined (JNum (Fin 10)) (JNum (Fin 20)) \<and>
   resolveMs (JNum (Fin (- 3))) (JNum PosInf) (JNum (Fin 20)) = PosInf \<and>
   resolveMs (JStr ''5'') (JBool True) (JNum NegInf) = Fin 120"
proof -
  have 1: "resolveMs (JNum (Fin 7)) (JStr ''fast'') JNull = Fin 7"
    using resolveMs_precedence[of "JNum (Fin 7)" "Fin 7" "JStr ''fast''" JNull] by simp
  have 2: "resolveMs (JNum NaN) (JNum (Fin 10)) (JNum (Fin 20)) =
      resolveMs JUndefined (JNum (Fin 10)) (JNum (Fin 20))"
    using resolveMs_precedence[of "JNum NaN" _ "JNum (Fin 10)" "JNum (Fin 20)"] by simp
  have 3: "resolveMs (JNum (Fin (- 3))) (JNum PosInf) (JNum (Fin 20)) = PosInf"
    using resolveMs_precedence[of "JNum (Fin (- 3))" PosInf "JNum PosInf" "JNum (Fin 20)"]
    by simp
  have 4: "resolveMs (JStr ''5'') (JBool True) (JNum NegInf) = Fin 120"
    using resolveMs_precedence[of "JStr ''5''" _ "JBool True" "JNum NegInf"]
      resolveMs_precedence[of JUndefined _ "JBool True" "JNum NegInf"]
      resolveMs_precedence[of JUndefined _ JUndefined "JNum NegInf"]
    by simp
  from 1 2 3 4 show ?thesis by blast
qed

section \<open>Sequence expansion\<close>

lemma visitPath_result:
  "visitPath k R a j V path acc cur = Inr (acc', cur') \<Longrightarrow>
     acc' = acc @ map (stepFor R a j k) path \<and> cur' = last (cur # path)"
proof (induction path arbitrary: acc cur)
  case Nil
  then show ?case by simp
next
  case (Cons s path)
  from Cons.prems have v: "s \<in> V" by (auto split: if_splits)
  with Cons.prems have
    "visitPath k R a j V path (acc @ [stepFor R a j k s]) s = Inr (acc', cur')"
    by (simp add: stepFor_def Let_def)
  from Cons.IH[OF this] show ?case by simp
qed

lemma sequenceLoop_result:
  "sequenceLoop R a j V order acc cur = Inr r \<Longrightarrow>
     steps r = acc @ map (\<lambda>(k, s). stepFor R a j k s) (sequenceVisits R order cur) \<and>
     finalState r = last (cur # map snd (sequenceVisits R order cur))"
proof (induction order arbitrary: acc cur)
  case Nil
  then show ?case by auto
next
  case (Cons k order)
  let ?path = "normalizePath (resolvePath k cur R) cur"
  show ?case
  proof (cases "?path = []")
    case True
    with Cons.prems have "sequenceLoop R a j V order acc cur = Inr r" by (simp add: Let_def)
    from Cons.IH[OF this] True show ?thesis by (simp add: Let_def)
  next
    case False
    with Cons.prems obtain acc' cur' where
      v: "visitPath k R a j V ?path acc cur = Inr (acc', cur')" and
      l: "sequenceLoop R a j V order acc' cur' = Inr r"
      by (auto simp: Let_def split: sum.splits)
    from visitPath_result[OF v] have
      a: "acc' = acc @ map (stepFor R a j k) ?path" and c: "cur' = last (cur # ?path)" by auto
    from Cons.IH[OF l] a c False show ?thesis
      by (simp add: Let_def comp_def last_append)
  qed
qed

lemma expandSequence_result:
  "expandSequence order cur R a j V = Inr r \<Longrightarrow>
     steps r = map (\<lambda>(k, s). stepFor R a j k s) (sequenceVisits R order cur) \<and>
     finalState r = last (cur # map snd (sequenceVisits R order cur))"
  unfolding expandSequence_def using sequenceLoop_result[of R a j V order "[]" cur r] by simp

lemma map_state_stepFor:
  "map state (map (\<lambda>(k, s). stepFor R a j k s) vs) = map snd vs"
  by (induction vs) (auto simp: stepFor_def)

lemma last_cons_map_state:
  "last (cur # map state ss) = (if ss = [] then cur else state (last ss))"
  by (simp add: last_map)

text \<open>
  C1, as the specification states it, fails on the code. The entry \<^verbatim>\<open>go\<close> is a route
  key with a duration of 50 that leads to the state \<^verbatim>\<open>a\<close>, whose own route block
  says 70. The code emits the step to \<^verbatim>\<open>a\<close> with the entry's 50; the visited state's
  own duration, which the specification wants, would give 70. (The second copy of the
  engine does look the duration up under the visited state, see
  \<open>expandSequence_part002_own_duration\<close> below; it admits no route key that is not a
  state.)
\<close>

theorem expandSequence_route_key_duration_counterexample:
  "expandSequence [''go''] ''b'' aliasRoutes JUndefined (JNum (Fin 120)) {''a'', ''b''} =
     Inr \<lparr>steps = [\<lparr>state = ''a'', ms = Fin 50\<rparr>], finalState = ''a''\<rparr> \<and>
   resolveMs JUndefined (routeMsOf aliasRoutes ''a'') (JNum (Fin 120)) = Fin 70"
  by (simp add: engine_eval aliasRoutes_def)

text \<open>
  C1, amended. For every instruction entry of a sequence expansion and every state visited
  on its normalized path, the duration of the emitted step is resolved from the action
  override first, then from the route-block duration of the instruction entry's own route
  key when that block has one (it is neither null nor undefined), else from the visited
  state's own route-block duration, then from the global default.
\<close>

theorem expandSequence_step_durations:
  "expandSequence order cur R a j V = Inr r \<Longrightarrow>
     steps r =
       map (\<lambda>(routeKey, visited).
              \<lparr>state = visited,
               ms = resolveMs a (nullish (routeMsOf R routeKey) (routeMsOf R visited)) j\<rparr>)
           (sequenceVisits R order cur)"
  using expandSequence_result[of order cur R a j V r] by (simp add: stepFor_def)

theorem expandSequence_step_durations_witness:
  "expandSequence [''go'', ''a'', ''b''] ''b'' aliasRoutes JUndefined (JNum (Fin 120)) {''a'', ''b''} =
     Inr \<lparr>steps = [\<lparr>state = ''a'', ms = Fin 50\<rparr>, \<lparr>state = ''b'', ms = Fin 120\<rparr>],
          finalState = ''b''\<rparr> \<and>
   steps \<lparr>steps = [\<lparr>state = ''a'', ms = Fin 50\<rparr>, \<lparr>state = ''b'', ms = Fin 120\<rparr>],
          finalState = ''b''\<rparr> =
     map (\<lambda>(routeKey, visited).
              \<lparr>state = visited,
               ms = resolveMs JUndefined
                      (nullish (routeMsOf aliasRoutes routeKey) (routeMsOf aliasRoutes visited))
                      (JNum (Fin 120))\<rparr>)
         (sequenceVisits aliasRoutes [''go'', ''a'', ''b''] ''b'')"
proof (rule conjI)
  show e: "expandSequence [''go'', ''a'', ''b''] ''b'' aliasRoutes JUndefined (JNum (Fin 120)) {''a'', ''b''} =
     Inr \<lparr>steps = [\<lparr>state = ''a'', ms = Fin 50\<rparr>, \<lparr>state = ''b'', ms = Fin 120\<rparr>],
          finalState = ''b''\<rparr>"
    by (simp add: engine_eval aliasRoutes_def)
  show "steps \<lparr>steps = [\<lparr>state = ''a'', ms = Fin 50\<rparr>, \<lparr>state = ''b'', ms = Fin 120\<rparr>],
          finalState = ''b''\<rparr> =
     map (\<lambda>(routeKey, visited).
              \<lparr>state = visited,
               ms = resolveMs JUndefined
                      (nullish (routeMsOf aliasRoutes routeKey) (routeMsOf aliasRoutes visited))
                      (JNum (Fin 120))\<rparr>)
         (sequenceVisits aliasRoutes [''go'', ''a'', ''b''] ''b'')"
    by (rule expandSequence_step_durations[OF e])
qed

section \<open>Direct expansion\<close>

lemma directLoop_Cons_fail:
  "resolvePath k cur R = [] \<or> last (resolvePath k cur R) \<notin> V \<Longrightarrow>
     directLoop R a j V (k # order) acc cur =
       Inl (if resolvePath k cur R = [] then UnknownState k ''undefined''
            else UnknownState k (last (resolvePath k cur R)))"
  by (auto simp: Let_def)

lemma directLoop_Cons_skip:
  "resolvePath k cur R \<noteq> [] \<Longrightarrow> last (resolvePath k cur R) \<in> V \<Longrightarrow>
   last (resolvePath k cur R) = cur \<Longrightarrow>
     directLoop R a j V (k # order) acc cur = directLoop R a j V order acc cur"
  by (simp add: Let_def)

lemma directLoop_Cons_emit:
  "resolvePath k cur R \<noteq> [] \<Longrightarrow> last (resolvePath k cur R) \<in> V \<Longrightarrow>
   last (resolvePath k cur R) \<noteq> cur \<Longrightarrow>
     directLoop R a j V (k # order) acc cur =
       directLoop R a j V order (acc @ [stepFor R a j k (last (resolvePath k cur R))])
         (last (resolvePath k cur R))"
  by (simp add: Let_def stepFor_def)

lemma directLoop_acc:
  "directLoop R a j V order (acc @ acc') cur =
     (case directLoop R a j V order acc' cur of
        Inl err \<Rightarrow> Inl err
      | Inr r \<Rightarrow> Inr (r\<lparr>steps := acc @ steps r\<rparr>))"
proof (induction order arbitrary: acc' cur)
  case Nil
  show ?case by simp
next
  case (Cons k order)
  let ?p = "resolvePath k cur R"
  let ?t = "last ?p"
  let ?st = "stepFor R a j k ?t"
  show ?case
  proof (cases "?p = [] \<or> ?t \<notin> V")
    case True
    show ?thesis
      by (simp only: directLoop_Cons_fail[OF True] sum.case)
  next
    case False
    then have ne: "?p \<noteq> []" and v: "?t \<in> V" by auto
    show ?thesis
    proof (cases "?t = cur")
      case True
      show ?thesis
        unfolding directLoop_Cons_skip[OF ne v True] by (rule Cons.IH)
    next
      case neq: False
      have "directLoop R a j V order (acc @ (acc' @ [?st])) ?t =
          (case directLoop R a j V order (acc' @ [?st]) ?t of
             Inl err \<Rightarrow> Inl err
           | Inr r \<Rightarrow> Inr (r\<lparr>steps := acc @ steps r\<rparr>))"
        by (rule Cons.IH)
      then show ?thesis
        unfolding directLoop_Cons_emit[OF ne v neq] by (simp only: append_assoc)
    qed
  qed
qed

lemma directLoop_pointer:
  "directLoop R a j V order acc cur = Inr r \<Longrightarrow>
     \<exists>new. steps r = acc @ new \<and> finalState r = last (cur # map state new) \<and>
           state ` set new \<subseteq> V"
proof (induction order arbitrary: acc cur)
  case Nil
  then have "steps r = acc @ [] \<and> finalState r = last (cur # map state []) \<and>
      state ` set [] \<subseteq> V" by auto
  then show ?case by (rule exI)
next
  case (Cons k order)
  let ?p = "resolvePath k cur R"
  let ?t = "last ?p"
  let ?st = "stepFor R a j k ?t"
  have nv: "\<not> (?p = [] \<or> ?t \<notin> V)"
  proof
    assume "?p = [] \<or> ?t \<notin> V"
    from Cons.prems show False
      by (simp only: directLoop_Cons_fail[OF \<open>?p = [] \<or> ?t \<notin> V\<close>] sum.distinct)
  qed
  then have ne: "?p \<noteq> []" and v: "?t \<in> V" by auto
  show ?case
  proof (cases "?t = cur")
    case True
    from Cons.prems have "directLoop R a j V order acc cur = Inr r"
      by (simp only: directLoop_Cons_skip[OF ne v True])
    from Cons.IH[OF this] show ?thesis .
  next
    case False
    from Cons.prems have "directLoop R a j V order (acc @ [?st]) ?t = Inr r"
      by (simp only: directLoop_Cons_emit[OF ne v False])
    from Cons.IH[OF this] obtain new where
      n: "steps r = (acc @ [?st]) @ new" and
      f: "finalState r = last (?t # map state new)" and
      w: "state ` set new \<subseteq> V" by blast
    have "steps r = acc @ (?st # new)" using n by simp
    moreover have "finalState r = last (cur # map state (?st # new))"
      using f by (simp add: stepFor_def)
    moreover have "state ` set (?st # new) \<subseteq> V"
      using w v by (simp add: stepFor_def)
    ultimately have
      "steps r = acc @ (?st # new) \<and> finalState r = last (cur # map state (?st # new)) \<and>
       state ` set (?st # new) \<subseteq> V" by blast
    then show ?thesis by (rule exI)
  qed
qed

lemma directLoop_spec_eq:
  "cur \<in> V \<Longrightarrow> directLoop_spec R a j V order acc cur = directLoop R a j V order acc cur"
proof (induction order arbitrary: acc cur)
  case Nil
  show ?case by simp
next
  case (Cons k order)
  let ?p = "resolvePath k cur R"
  let ?t = "last ?p"
  show ?case
  proof (cases "?p = [] \<or> ?t \<notin> V")
    case True
    with Cons.prems have "directLoop_spec R a j V (k # order) acc cur =
        Inl (if ?p = [] then UnknownState k ''undefined'' else UnknownState k ?t)"
      by (auto simp: Let_def)
    then show ?thesis by (simp only: directLoop_Cons_fail[OF True])
  next
    case False
    then have ne: "?p \<noteq> []" and v: "?t \<in> V" by auto
    show ?thesis
    proof (cases "?t = cur")
      case True
      have "directLoop_spec R a j V (k # order) acc cur = directLoop_spec R a j V order acc cur"
        using ne True by (simp add: Let_def)
      also have "\<dots> = directLoop R a j V order acc cur" using Cons.prems by (rule Cons.IH)
      finally show ?thesis by (simp only: directLoop_Cons_skip[OF ne v True])
    next
      case neq: False
      have "directLoop_spec R a j V (k # order) acc cur =
          directLoop_spec R a j V order (acc @ [stepFor R a j k ?t]) ?t"
        using ne v neq by (simp add: Let_def)
      also have "\<dots> = directLoop R a j V order (acc @ [stepFor R a j k ?t]) ?t"
        using v by (rule Cons.IH)
      finally show ?thesis by (simp only: directLoop_Cons_emit[OF ne v neq])
    qed
  qed
qed

text \<open>
  The second copy of the engine skips route resolution and takes the entry itself as the
  destination. Where every entry is a known state whose paths all end at the entry itself,
  the two copies expand alike.
\<close>

lemma directLoop_part002_agrees:
  "\<forall>k \<in> set order. k \<in> V \<and> (\<forall>c. resolvePath k c R \<noteq> [] \<and> last (resolvePath k c R) = k) \<Longrightarrow>
     directLoop_part002 R a j V order acc cur = directLoop R a j V order acc cur"
proof (induction order arbitrary: acc cur)
  case Nil
  show ?case by simp
next
  case (Cons k order)
  from Cons.prems have kv: "k \<in> V" and ne: "resolvePath k cur R \<noteq> []"
    and l: "last (resolvePath k cur R) = k" by simp_all
  from Cons.prems have rest:
    "\<forall>k \<in> set order. k \<in> V \<and> (\<forall>c. resolvePath k c R \<noteq> [] \<and> last (resolvePath k c R) = k)"
    by simp
  from kv l have v: "last (resolvePath k cur R) \<in> V" by simp
  show ?case
  proof (cases "k = cur")
    case True
    with l have eq: "last (resolvePath k cur R) = cur" by simp
    have "directLoop_part002 R a j V (k # order) acc cur = directLoop_part002 R a j V order acc cur"
      using kv True by simp
    also have "\<dots> = directLoop R a j V order acc cur" using rest by (rule Cons.IH)
    finally show ?thesis by (simp only: directLoop_Cons_skip[OF ne v eq])
  next
    case False
    with l have nq: "last (resolvePath k cur R) \<noteq> cur" by simp
    have st: "stepFor R a j k k = \<lparr>state = k, ms = resolveMs a (routeMsOf R k) j\<rparr>"
      by (cases "routeMsOf R k") (simp_all add: stepFor_def)
    have "directLoop_part002 R a j V (k # order) acc cur =
        directLoop_part002 R a j V order (acc @ [\<lparr>state = k, ms = resolveMs a (routeMsOf R k) j\<rparr>]) k"
      using kv False by (simp add: Let_def)
    also have "\<dots> = directLoop R a j V order (acc @ [\<lparr>state = k, ms = resolveMs a (routeMsOf R k) j\<rparr>]) k"
      using rest by (rule Cons.IH)
    finally show ?thesis by (simp only: directLoop_Cons_emit[OF ne v nq] st l)
  qed
qed

text \<open>
  C5. For every instruction entry of a direct expansion the entry's path is resolved
  through the route table against the current pointer and only its last element is kept
  as the destination. When that destination equals the current pointer, a known state as
  the pointer of the engine always is, the entry is skipped: no step is emitted and the
  pointer stays. Any other known destination yields exactly one step, to the destination,
  and the remaining entries are expanded from there; an unknown destination fails the
  expansion. From a known pointer the whole expansion is the one the specification
  describes. With routes \<^verbatim>\<open>{ right: { "*": ["center","right"] } }\<close> and current state
  \<^verbatim>\<open>left\<close>, direct expansion of \<^verbatim>\<open>["right"]\<close> yields the single step to
  \<^verbatim>\<open>right\<close>, and sequence expansion the two steps \<^verbatim>\<open>center\<close>, \<^verbatim>\<open>right\<close> with
  final pointer \<^verbatim>\<open>right\<close>. The second copy of the engine skips route resolution and
  takes the entry itself as the destination: it skips an entry that equals the pointer,
  yields the same single step in the example, and expands like the first copy wherever every
  entry is a known state whose paths end at the entry itself.
\<close>

theorem expandDirect_entry:
  "(cur \<in> V \<longrightarrow>
      expandDirect order cur R a j V = directLoop_spec R a j V order [] cur) \<and>
   (cur \<in> V \<and> resolvePath k cur R \<noteq> [] \<and> last (resolvePath k cur R) = cur \<longrightarrow>
      expandDirect (k # ks) cur R a j V = expandDirect ks cur R a j V) \<and>
   (resolvePath k cur R \<noteq> [] \<and> last (resolvePath k cur R) \<in> V \<and>
    last (resolvePath k cur R) \<noteq> cur \<longrightarrow>
      expandDirect (k # ks) cur R a j V =
        (case expandDirect ks (last (resolvePath k cur R)) R a j V of
           Inl err \<Rightarrow> Inl err
         | Inr r \<Rightarrow>
             Inr (r\<lparr>steps :=
                     \<lparr>state = last (resolvePath k cur R),
                      ms = resolveMs a
                             (nullish (routeMsOf R k) (routeMsOf R (last (resolvePath k cur R))))
                             j\<rparr> # steps r\<rparr>))) \<and>
   (resolvePath k cur R = [] \<or> last (resolvePath k cur R) \<notin> V \<longrightarrow>
      (\<exists>err. expandDirect (k # ks) cur R a j V = Inl err)) \<and>
   expandDirect [] cur R a j V = Inr \<lparr>steps = [], finalState = cur\<rparr> \<and>
   (''center'' \<in> V \<and> ''right'' \<in> V \<longrightarrow>
      expandDirect [''right''] ''left'' rightRoutes a j V =
        Inr \<lparr>steps = [\<lparr>state = ''right'', ms = resolveMs a JUndefined j\<rparr>],
             finalState = ''right''\<rparr> \<and>
      expandSequence [''right''] ''left'' rightRoutes a j V =
        Inr \<lparr>steps = [\<lparr>state = ''center'', ms = resolveMs a JUndefined j\<rparr>,
                      \<lparr>state = ''right'', ms = resolveMs a JUndefined j\<rparr>],
             finalState = ''right''\<rparr> \<and>
      expandDirect_part002 [''right''] ''left'' rightRoutes a j V =
        Inr \<lparr>steps = [\<lparr>state = ''right'', ms = resolveMs a JUndefined j\<rparr>],
             finalState = ''right''\<rparr>) \<and>
   (k \<in> V \<and> k = cur \<longrightarrow>
      expandDirect_part002 (k # ks) cur R a j V = expandDirect_part002 ks cur R a j V) \<and>
   ((\<forall>x \<in> set order. x \<in> V \<and> (\<forall>c. resolvePath x c R \<noteq> [] \<and> last (resolvePath x c R) = x)) \<longrightarrow>
      expandDirect_part002 order cur R a j V = expandDirect order cur R a j V)"
proof -
  let ?p = "resolvePath k cur R"
  let ?t = "last ?p"
  let ?st = "stepFor R a j k ?t"
  have spec: "cur \<in> V \<longrightarrow>
      expandDirect order cur R a j V = directLoop_spec R a j V order [] cur"
    unfolding expandDirect_def using directLoop_spec_eq[of cur V R a j order "[]"] by simp
  have skip: "cur \<in> V \<and> ?p \<noteq> [] \<and> ?t = cur \<longrightarrow>
      expandDirect (k # ks) cur R a j V = expandDirect ks cur R a j V"
    unfolding expandDirect_def using directLoop_Cons_skip[of k cur R V a j ks "[]"] by metis
  have fail: "?p = [] \<or> ?t \<notin> V \<longrightarrow> (\<exists>err. expandDirect (k # ks) cur R a j V = Inl err)"
    unfolding expandDirect_def using directLoop_Cons_fail[of k cur R V a j ks "[]"] by blast
  have emit: "?p \<noteq> [] \<and> ?t \<in> V \<and> ?t \<noteq> cur \<longrightarrow>
      expandDirect (k # ks) cur R a j V =
        (case expandDirect ks ?t R a j V of
           Inl err \<Rightarrow> Inl err
         | Inr r \<Rightarrow> Inr (r\<lparr>steps := ?st # steps r\<rparr>))"
  proof
    assume h: "?p \<noteq> [] \<and> ?t \<in> V \<and> ?t \<noteq> cur"
    then have ne: "?p \<noteq> []" and v: "?t \<in> V" and nq: "?t \<noteq> cur" by blast+
    have "directLoop R a j V (k # ks) [] cur = directLoop R a j V ks ([?st] @ []) ?t"
      unfolding directLoop_Cons_emit[OF ne v nq] by simp
    also have "\<dots> = (case directLoop R a j V ks [] ?t of
           Inl err \<Rightarrow> Inl err
         | Inr r \<Rightarrow> Inr (r\<lparr>steps := [?st] @ steps r\<rparr>))"
      by (rule directLoop_acc)
    finally have e: "directLoop R a j V (k # ks) [] cur =
        (case directLoop R a j V ks [] ?t of
           Inl err \<Rightarrow> Inl err
         | Inr r \<Rightarrow> Inr (r\<lparr>steps := [?st] @ steps r\<rparr>))" .
    have c: "(case directLoop R a j V ks [] ?t of
           Inl err \<Rightarrow> Inl err
         | Inr r \<Rightarrow> Inr (r\<lparr>steps := [?st] @ steps r\<rparr>)) =
        (case directLoop R a j V ks [] ?t of
           Inl err \<Rightarrow> Inl err
         | Inr r \<Rightarrow> Inr (r\<lparr>steps := ?st # steps r\<rparr>))"
      by (simp split: sum.splits)
    show "expandDirect (k # ks) cur R a j V =
        (case expandDirect ks ?t R a j V of
           Inl err \<Rightarrow> Inl err
         | Inr r \<Rightarrow> Inr (r\<lparr>steps := ?st # steps r\<rparr>))"
      unfolding expandDirect_def e c by (rule refl)
  qed
  have nil: "expandDirect [] cur R a j V = Inr \<lparr>steps = [], finalState = cur\<rparr>"
    by (simp add: expandDirect_def)
  have ex: "''center'' \<in> V \<and> ''right'' \<in> V \<longrightarrow>
      expandDirect [''right''] ''left'' rightRoutes a j V =
        Inr \<lparr>steps = [\<lparr>state = ''right'', ms = resolveMs a JUndefined j\<rparr>],
             finalState = ''right''\<rparr> \<and>
      expandSequence [''right''] ''left'' rightRoutes a j V =
        Inr \<lparr>steps = [\<lparr>state = ''center'', ms = resolveMs a JUndefined j\<rparr>,
                      \<lparr>state = ''right'', ms = resolveMs a JUndefined j\<rparr>],
             finalState = ''right''\<rparr> \<and>
      expandDirect_part002 [''right''] ''left'' rightRoutes a j V =
        Inr \<lparr>steps = [\<lparr>state = ''right'', ms = resolveMs a JUndefined j\<rparr>],
             finalState = ''right''\<rparr>"
    by (simp add: expandSequence_def expandDirect_def expandDirect_part002_def resolvePath_def
        normalizePath_def routeMsOf_def emptyBlock_def Let_def rightRoutes_def)
  have copy: "k \<in> V \<and> k = cur \<longrightarrow>
      expandDirect_part002 (k # ks) cur R a j V = expandDirect_part002 ks cur R a j V"
    by (auto simp: expandDirect_part002_def)
  have agree: "(\<forall>x \<in> set order. x \<in> V \<and> (\<forall>c. resolvePath x c R \<noteq> [] \<and> last (resolvePath x c R) = x)) \<longrightarrow>
      expandDirect_part002 order cur R a j V = expandDirect order cur R a j V"
    unfolding expandDirect_part002_def expandDirect_def
    using directLoop_part002_agrees[of order V R a j "[]" cur] by blast
  from spec skip emit fail nil ex copy have
    "(cur \<in> V \<longrightarrow>
      expandDirect order cur R a j V = directLoop_spec R a j V order [] cur) \<and>
   (cur \<in> V \<and> resolvePath k cur R \<noteq> [] \<and> last (resolvePath k cur R) = cur \<longrightarrow>
      expandDirect (k # ks) cur R a j V = expandDirect ks cur R a j V) \<and>
   (resolvePath k cur R \<noteq> [] \<and> last (resolvePath k cur R) \<in> V \<and>
    last (resolvePath k cur R) \<noteq> cur \<longrightarrow>
      expandDirect (k # ks) cur R a j V =
        (case expandDirect ks (last (resolvePath k cur R)) R a j V of
           Inl err \<Rightarrow> Inl err
         | Inr r \<Rightarrow>
             Inr (r\<lparr>steps :=
                     \<lparr>state = last (resolvePath k cur R),
                      ms = resolveMs a
                             (nullish (routeMsOf R k) (routeMsOf R (last (resolvePath k cur R))))
                             j\<rparr> # steps r\<rparr>))) \<and>
   (resolvePath k cur R = [] \<or> last (resolvePath k cur R) \<notin> V \<longrightarrow>
      (\<exists>err. expandDirect (k # ks) cur R a j V = Inl err)) \<and>
   expandDirect [] cur R a j V = Inr \<lparr>steps = [], finalState = cur\<rparr> \<and>
   (''center'' \<in> V \<and> ''right'' \<in> V \<longrightarrow>
      expandDirect [''right''] ''left'' rightRoutes a j V =
        Inr \<lparr>steps = [\<lparr>state = ''right'', ms = resolveMs a JUndefined j\<rparr>],
             finalState = ''right''\<rparr> \<and>
      expandSequence [''right''] ''left'' rightRoutes a j V =
        Inr \<lparr>steps = [\<lparr>state = ''center'', ms = resolveMs a JUndefined j\<rparr>,
                      \<lparr>state = ''right'', ms = resolveMs a JUndefined j\<rparr>],
             finalState = ''right''\<rparr> \<and>
      expandDirect_part002 [''right''] ''left'' rightRoutes a j V =
        Inr \<lparr>steps = [\<lparr>state = ''right'', ms = resolveMs a JUndefined j\<rparr>],
             finalState = ''right''\<rparr>) \<and>
   (k \<in> V \<and> k = cur \<longrightarrow>
      expandDirect_part002 (k # ks) cur R a j V = expandDirect_part002 ks cur R a j V)"
    unfolding stepFor_def by blast
  with agree show ?thesis by blast
qed

theorem expandDirect_entry_witness:
  "expandDirect [''right'', ''right''] ''left'' rightRoutes JUndefined (JNum (Fin 120))
       {''left'', ''center'', ''right''} =
     Inr \<lparr>steps = [\<lparr>state = ''right'', ms = Fin 120\<rparr>], finalState = ''right''\<rparr> \<and>
   expandDirect [''right'', ''right''] ''left'' rightRoutes JUndefined (JNum (Fin 120))
       {''left'', ''center'', ''right''} =
     directLoop_spec rightRoutes JUndefined (JNum (Fin 120)) {''left'', ''center'', ''right''}
       [''right'', ''right''] [] ''left'' \<and>
   expandDirect_part002 [''left'', ''right''] ''left'' rightRoutes JUndefined (JNum (Fin 120))
       {''left'', ''center'', ''right''} =
     expandDirect_part002 [''right''] ''left'' rightRoutes JUndefined (JNum (Fin 120))
       {''left'', ''center'', ''right''} \<and>
   (\<exists>err. expandDirect [''right''] ''left'' rightRoutes JUndefined (JNum (Fin 120)) {''left''} = Inl err) \<and>
   expandDirect_part002 [''right'', ''right''] ''left'' rightRoutes JUndefined (JNum (Fin 120))
       {''left'', ''center'', ''right''} =
     expandDirect [''right'', ''right''] ''left'' rightRoutes JUndefined (JNum (Fin 120))
       {''left'', ''center'', ''right''}"
proof -
  let ?V = "{''left'', ''center'', ''right''}"
  let ?j = "JNum (Fin 120)"
  have p1: "resolvePath ''right'' ''left'' rightRoutes = [''center'', ''right'']"
    by (simp add: resolvePath_def rightRoutes_def emptyBlock_def)
  have p2: "resolvePath ''right'' ''right'' rightRoutes = [''center'', ''right'']"
    by (simp add: resolvePath_def rightRoutes_def emptyBlock_def)
  have ms: "resolveMs JUndefined (nullish (routeMsOf rightRoutes ''right'') (routeMsOf rightRoutes ''right'')) ?j = Fin 120"
    by (simp add: resolveMs_def routeMsOf_def rightRoutes_def emptyBlock_def)
  have nil: "expandDirect [] ''right'' rightRoutes JUndefined ?j ?V =
      Inr \<lparr>steps = [], finalState = ''right''\<rparr>"
    using expandDirect_entry[of "''right''" ?V "[]" rightRoutes JUndefined ?j "''right''" "[]"] by blast
  have skip: "expandDirect [''right''] ''right'' rightRoutes JUndefined ?j ?V =
      expandDirect [] ''right'' rightRoutes JUndefined ?j ?V"
    using expandDirect_entry[of "''right''" ?V "[]" rightRoutes JUndefined ?j "''right''" "[]"] p2
    by simp
  have emit: "expandDirect [''right'', ''right''] ''left'' rightRoutes JUndefined ?j ?V =
      Inr \<lparr>steps = [\<lparr>state = ''right'', ms = Fin 120\<rparr>], finalState = ''right''\<rparr>"
    using expandDirect_entry[of "''left''" ?V "[]" rightRoutes JUndefined ?j "''right''" "[''right'']"]
      p1 ms skip nil by simp
  have spec: "expandDirect [''right'', ''right''] ''left'' rightRoutes JUndefined ?j ?V =
      directLoop_spec rightRoutes JUndefined ?j ?V [''right'', ''right''] [] ''left''"
  proof -
    have "''left'' \<in> ?V" by simp
    with expandDirect_entry[of "''left''" ?V "[''right'', ''right'']" rightRoutes JUndefined ?j]
    show ?thesis by blast
  qed
  have copy: "expandDirect_part002 [''left'', ''right''] ''left'' rightRoutes JUndefined ?j ?V =
      expandDirect_part002 [''right''] ''left'' rightRoutes JUndefined ?j ?V"
    using expandDirect_entry[of "''left''" ?V "[]" rightRoutes JUndefined ?j "''left''" "[''right'']"]
    by simp
  have fail: "\<exists>err. expandDirect [''right''] ''left'' rightRoutes JUndefined ?j {''left''} = Inl err"
    using expandDirect_entry[of "''left''" "{''left''}" "[]" rightRoutes JUndefined ?j "''right''" "[]"] p1
    by simp
  have ends: "\<forall>x \<in> set [''right'', ''right'']. x \<in> ?V \<and>
      (\<forall>c. resolvePath x c rightRoutes \<noteq> [] \<and> last (resolvePath x c rightRoutes) = x)"
    by (simp add: resolvePath_def rightRoutes_def emptyBlock_def)
  have agree: "expandDirect_part002 [''right'', ''right''] ''left'' rightRoutes JUndefined ?j ?V =
      expandDirect [''right'', ''right''] ''left'' rightRoutes JUndefined ?j ?V"
    using expandDirect_entry[of "''left''" ?V "[''right'', ''right'']" rightRoutes JUndefined ?j]
      ends by blast
  from emit spec copy fail agree show ?thesis by blast
qed

section \<open>The second copy of the engine\<close>

text \<open>
  In the copy every step carries the duration resolved under the visited state itself, and
  the pointer it returns is where its steps end.
\<close>

lemma visitPath_part002_result:
  "visitPath_part002 R a j V path acc cur = Inr (acc', cur') \<Longrightarrow>
     \<exists>new. acc' = acc @ new \<and> cur' = last (cur # map state new) \<and>
           list_all (ownDuration R a j) new"
proof (induction path arbitrary: acc cur)
  case Nil
  then have "acc' = acc @ [] \<and> cur' = last (cur # map state []) \<and>
      list_all (ownDuration R a j) []" by simp
  then show ?case by (rule exI)
next
  case (Cons s path)
  let ?st = "\<lparr>state = s, ms = resolveMs a (routeMsOf R s) j\<rparr>"
  from Cons.prems have "s \<in> V" by (auto split: if_splits)
  with Cons.prems have "visitPath_part002 R a j V path (acc @ [?st]) s = Inr (acc', cur')"
    by (simp add: Let_def)
  from Cons.IH[OF this] obtain new where
    n: "acc' = (acc @ [?st]) @ new" and c: "cur' = last (s # map state new)" and
    d: "list_all (ownDuration R a j) new" by blast
  have "acc' = acc @ (?st # new) \<and> cur' = last (cur # map state (?st # new)) \<and>
      list_all (ownDuration R a j) (?st # new)"
    using n c d by (simp add: ownDuration_def)
  then show ?case by (rule exI)
qed

lemma sequenceLoop_part002_result:
  "sequenceLoop_part002 R a j V order acc cur = Inr r \<Longrightarrow>
     \<exists>new. steps r = acc @ new \<and> finalState r = last (cur # map state new) \<and>
           list_all (ownDuration R a j) new"
proof (induction order arbitrary: acc cur)
  case Nil
  then have "steps r = acc @ [] \<and> finalState r = last (cur # map state []) \<and>
      list_all (ownDuration R a j) []" by auto
  then show ?case by (rule exI)
next
  case (Cons k order)
  let ?path = "normalizePath (resolvePath k cur R) cur"
  from Cons.prems have v: "k \<in> V" by (auto split: if_splits)
  with Cons.prems obtain acc' cur' where
    p: "visitPath_part002 R a j V ?path acc cur = Inr (acc', cur')" and
    l: "sequenceLoop_part002 R a j V order acc' cur' = Inr r"
    by (auto simp: Let_def split: sum.splits)
  from visitPath_part002_result[OF p] obtain n1 where
    a1: "acc' = acc @ n1" and c1: "cur' = last (cur # map state n1)" and
    d1: "list_all (ownDuration R a j) n1" by blast
  from Cons.IH[OF l] obtain n2 where
    a2: "steps r = acc' @ n2" and c2: "finalState r = last (cur' # map state n2)" and
    d2: "list_all (ownDuration R a j) n2" by blast
  have "steps r = acc @ (n1 @ n2) \<and> finalState r = last (cur # map state (n1 @ n2)) \<and>
      list_all (ownDuration R a j) (n1 @ n2)"
    using a1 a2 c1 c2 d1 d2 by (cases "n2 = []") (simp_all add: last_append)
  then show ?case by (rule exI)
qed

lemma directLoop_part002_result:
  "directLoop_part002 R a j V order acc cur = Inr r \<Longrightarrow>
     \<exists>new. steps r = acc @ new \<and> finalState r = last (cur # map state new)"
proof (induction order arbitrary: acc cur)
  case Nil
  then have "steps r = acc @ [] \<and> finalState r = last (cur # map state [])" by auto
  then show ?case by (rule exI)
next
  case (Cons k order)
  let ?st = "\<lparr>state = k, ms = resolveMs a (routeMsOf R k) j\<rparr>"
  from Cons.prems have v: "k \<in> V" by (auto split: if_splits)
  show ?case
  proof (cases "k = cur")
    case True
    with Cons.prems v have "directLoop_part002 R a j V order acc cur = Inr r" by simp
    from Cons.IH[OF this] show ?thesis .
  next
    case False
    with Cons.prems v have "directLoop_part002 R a j V order (acc @ [?st]) k = Inr r"
      by (simp add: Let_def)
    from Cons.IH[OF this] obtain new where
      n: "steps r = (acc @ [?st]) @ new" and f: "finalState r = last (k # map state new)"
      by blast
    have "steps r = acc @ (?st # new) \<and> finalState r = last (cur # map state (?st # new))"
      using n f by simp
    then show ?thesis by (rule exI)
  qed
qed

lemma expandSequence_part002_own_duration:
  assumes "expandSequence_part002 order cur R a j V = Inr r"
  shows "list_all (ownDuration R a j) (steps r)"
proof -
  from assms have "sequenceLoop_part002 R a j V order [] cur = Inr r"
    by (simp only: expandSequence_part002_def)
  from sequenceLoop_part002_result[OF this] show ?thesis by auto
qed

lemma part002_finalState:
  assumes "expandSequence_part002 order cur R a j V = Inr r \<or>
           expandDirect_part002 order cur R a j V = Inr r"
  shows "finalState r = (if steps r = [] then cur else state (last (steps r)))"
proof -
  from assms have "\<exists>new. steps r = [] @ new \<and> finalState r = last (cur # map state new)"
  proof
    assume "expandSequence_part002 order cur R a j V = Inr r"
    then have "sequenceLoop_part002 R a j V order [] cur = Inr r"
      by (simp only: expandSequence_part002_def)
    from sequenceLoop_part002_result[OF this] show ?thesis by blast
  next
    assume "expandDirect_part002 order cur R a j V = Inr r"
    then have "directLoop_part002 R a j V order [] cur = Inr r"
      by (simp only: expandDirect_part002_def)
    from directLoop_part002_result[OF this] show ?thesis by blast
  qed
  then have "finalState r = last (cur # map state (steps r))" by auto
  then show ?thesis by (simp only: last_cons_map_state)
qed

section \<open>The final pointer agrees with the steps\<close>

text \<open>
  C10. When expandSequence or expandDirect returns, the final state it returns is the
  state of the last step of the returned list, and the starting state when the list is
  empty. This holds for the engine and for its second copy.
\<close>

theorem expansion_finalState_agrees:
  "(expandSequence order cur R a j V = Inr r \<longrightarrow>
      finalState r = (if steps r = [] then cur else state (last (steps r)))) \<and>
   (expandDirect order cur R a j V = Inr r \<longrightarrow>
      finalState r = (if steps r = [] then cur else state (last (steps r)))) \<and>
   (expandSequence_part002 order cur R a j V = Inr r \<longrightarrow>
      finalState r = (if steps r = [] then cur else state (last (steps r)))) \<and>
   (expandDirect_part002 order cur R a j V = Inr r \<longrightarrow>
      finalState r = (if steps r = [] then cur else state (last (steps r))))"
proof (intro conjI impI)
  assume e: "expandSequence order cur R a j V = Inr r"
  let ?vs = "sequenceVisits R order cur"
  from expandSequence_result[OF e] have
    s: "steps r = map (\<lambda>(k, s). stepFor R a j k s) ?vs" and
    f: "finalState r = last (cur # map snd ?vs)" by blast+
  have "map state (steps r) = map snd ?vs"
    unfolding s by (rule map_state_stepFor)
  with f have "finalState r = last (cur # map state (steps r))" by (simp only:)
  then show "finalState r = (if steps r = [] then cur else state (last (steps r)))"
    by (simp only: last_cons_map_state)
next
  assume e: "expandDirect order cur R a j V = Inr r"
  then have "directLoop R a j V order [] cur = Inr r"
    by (simp only: expandDirect_def)
  from directLoop_pointer[OF this] obtain new where
    "steps r = [] @ new" "finalState r = last (cur # map state new)" by blast
  then have "finalState r = last (cur # map state (steps r))" by simp
  then show "finalState r = (if steps r = [] then cur else state (last (steps r)))"
    by (simp only: last_cons_map_state)
next
  assume "expandSequence_part002 order cur R a j V = Inr r"
  then show "finalState r = (if steps r = [] then cur else state (last (steps r)))"
    by (intro part002_finalState disjI1)
next
  assume "expandDirect_part002 order cur R a j V = Inr r"
  then show "finalState r = (if steps r = [] then cur else state (last (steps r)))"
    by (intro part002_finalState disjI2)
qed

theorem expansion_finalState_agrees_witness:
  "expandSequence [''right''] ''left'' rightRoutes JUndefined (JNum (Fin 120))
       {''left'', ''center'', ''right''} =
     Inr \<lparr>steps = [\<lparr>state = ''center'', ms = Fin 120\<rparr>, \<lparr>state = ''right'', ms = Fin 120\<rparr>],
          finalState = ''right''\<rparr> \<and>
   expandDirect [''left''] ''left'' rightRoutes JUndefined (JNum (Fin 120))
       {''left'', ''center'', ''right''} =
     Inr \<lparr>steps = [], finalState = ''left''\<rparr> \<and>
   expandSequence_part002 [''right''] ''left'' rightRoutes JUndefined (JNum (Fin 120))
       {''left'', ''center'', ''right''} =
     Inr \<lparr>steps = [\<lparr>state = ''center'', ms = Fin 120\<rparr>, \<lparr>state = ''right'', ms = Fin 120\<rparr>],
          finalState = ''right''\<rparr> \<and>
   expandDirect_part002 [''left''] ''left'' rightRoutes JUndefined (JNum (Fin 120))
       {''left'', ''center'', ''right''} =
     Inr \<lparr>steps = [], finalState = ''left''\<rparr> \<and>
   finalState \<lparr>steps = [\<lparr>state = ''center'', ms = Fin 120\<rparr>, \<lparr>state = ''right'', ms = Fin 120\<rparr>],
          finalState = ''right''\<rparr> = ''right'' \<and>
   finalState \<lparr>steps = [], finalState = ''left''\<rparr> = ''left''"
proof -
  let ?V = "{''left'', ''center'', ''right''}"
  let ?r1 = "\<lparr>steps = [\<lparr>state = ''center'', ms = Fin 120\<rparr>, \<lparr>state = ''right'', ms = Fin 120\<rparr>],
          finalState = ''right''\<rparr>"
  let ?r2 = "\<lparr>steps = [], finalState = ''left''\<rparr>"
  have e1: "expandSequence [''right''] ''left'' rightRoutes JUndefined (JNum (Fin 120)) ?V = Inr ?r1"
    by (simp add: engine_eval rightRoutes_def)
  have e2: "expandDirect [''left''] ''left'' rightRoutes JUndefined (JNum (Fin 120)) ?V = Inr ?r2"
    by (simp add: engine_eval rightRoutes_def)
  have e3: "expandSequence_part002 [''right''] ''left'' rightRoutes JUndefined (JNum (Fin 120)) ?V =
      Inr ?r1"
    by (simp add: expandSequence_part002_def engine_eval rightRoutes_def)
  have e4: "expandDirect_part002 [''left''] ''left'' rightRoutes JUndefined (JNum (Fin 120)) ?V =
      Inr ?r2"
    by (simp add: expandDirect_part002_def engine_eval rightRoutes_def)
  have f1: "finalState ?r1 = (if steps ?r1 = [] then ''left'' else state (last (steps ?r1)))"
    using expansion_finalState_agrees[of "[''right'']" "''left''" rightRoutes JUndefined
        "JNum (Fin 120)" ?V ?r1] e1 by blast
  have f2: "finalState ?r2 = (if steps ?r2 = [] then ''left'' else state (last (steps ?r2)))"
    using expansion_finalState_agrees[of "[''left'']" "''left''" rightRoutes JUndefined
        "JNum (Fin 120)" ?V ?r2] e2 by blast
  from f1 have g1: "finalState ?r1 = ''right''" by simp
  from f2 have g2: "finalState ?r2 = ''left''" by simp
  from e1 e2 e3 e4 g1 g2 show ?thesis by blast
qed

section \<open>Playback without interference\<close>


lemma signalAborted_onStateChange [simp]:
  "signalAborted (onStateChange s e) c = signalAborted e c"
  by (simp add: signalAborted_def onStateChange_def emit_def)

lemma settleAll_Nil [simp]: "settleAll [] e = e"
  by (simp add: settleAll_def)

lemma settleAll_Cons [simp]: "settleAll (st # ss) e = settleAll ss (onStateChange (state st) e)"
  by (simp add: settleAll_def)


lemma signalAborted_settleAll [simp]:
  "signalAborted (settleAll ss e) c = signalAborted e c"
  by (induction ss arbitrary: e) simp_all



















lemma currentState_settleAll:
  "vf_currentState (settleAll ss e) = last (vf_currentState e # map state ss)"
  by (induction ss arbitrary: e) (simp_all add: onStateChange_def emit_def)




section \<open>Playback: completion and cancellation\<close>

lemmas playback_eval =
  play_def lookupAction_def runAction_def stop_def emit_def playStep_def onStateChange_def signalAborted_def
  orCurrent_def isPlaying_def currentAction_def currentState_def

text \<open>
  C2. Playing \<^verbatim>\<open>go\<close> to its natural end with nothing interfering: the two steps
  settle, one action-ended notification is emitted and the current action is null, but
  the abort controller of the finished call stays in place, so isPlaying still reports
  true.
\<close>

theorem play_natural_completion_isPlaying:
  "play ''go'' (poseEngine, []) =
     ((poseEngine\<lparr>vf_currentState := ''right'', vf_controllers := [False],
                   vf_abortController := Some 0, vf_currentActionName := None,
                   vf_emitted := [ActionStart ''go'', StateChange ''center'',
                                  StateChange ''right'', ActionEnd ''go'']\<rparr>, []),
      Inr ()) \<and>
   currentAction (poseEngine\<lparr>vf_currentState := ''right'', vf_controllers := [False],
                   vf_abortController := Some 0, vf_currentActionName := None,
                   vf_emitted := [ActionStart ''go'', StateChange ''center'',
                                  StateChange ''right'', ActionEnd ''go'']\<rparr>) = None \<and>
   isPlaying (poseEngine\<lparr>vf_currentState := ''right'', vf_controllers := [False],
                   vf_abortController := Some 0, vf_currentActionName := None,
                   vf_emitted := [ActionStart ''go'', StateChange ''center'',
                                  StateChange ''right'', ActionEnd ''go'']\<rparr>) = True"
proof (intro conjI)
  show "play ''go'' (poseEngine, []) =
     ((poseEngine\<lparr>vf_currentState := ''right'', vf_controllers := [False],
                   vf_abortController := Some 0, vf_currentActionName := None,
                   vf_emitted := [ActionStart ''go'', StateChange ''center'',
                                  StateChange ''right'', ActionEnd ''go'']\<rparr>, []),
      Inr ())"
    by (simp add: playback_eval engine_eval poseEngine_def goRight_def rightRoutes_def)
qed (simp_all add: isPlaying_def currentAction_def signalAborted_def)

text \<open>
  C7. The same action registered under the empty name is played and \<^verbatim>\<open>stop()\<close> is
  called during its first tween. The stop aborts and clears the controller, but the
  truthiness test on the action name fails for the empty string: no action-ended
  notification is emitted and the current action is not reset to null.
\<close>

theorem stop_empty_action_name_no_actionEnd:
  "play [] (poseEngine, [CallStop]) =
     ((poseEngine\<lparr>vf_controllers := [True], vf_currentActionName := Some [],
                   vf_emitted := [ActionStart []]\<rparr>, []),
      Inr ()) \<and>
   currentAction (poseEngine\<lparr>vf_controllers := [True], vf_currentActionName := Some [],
                   vf_emitted := [ActionStart []]\<rparr>) = Some [] \<and>
   play ''go'' (poseEngine, [CallStop]) =
     ((poseEngine\<lparr>vf_controllers := [True], vf_currentActionName := None,
                   vf_emitted := [ActionStart ''go'', ActionEnd ''go'']\<rparr>, []),
      Inr ())"
proof (intro conjI)
  show "play [] (poseEngine, [CallStop]) =
     ((poseEngine\<lparr>vf_controllers := [True], vf_currentActionName := Some [],
                   vf_emitted := [ActionStart []]\<rparr>, []),
      Inr ())"
    by (simp add: playback_eval engine_eval poseEngine_def goRight_def rightRoutes_def)
  show "play ''go'' (poseEngine, [CallStop]) =
     ((poseEngine\<lparr>vf_controllers := [True], vf_currentActionName := None,
                   vf_emitted := [ActionStart ''go'', ActionEnd ''go'']\<rparr>, []),
      Inr ())"
    by (simp add: playback_eval engine_eval poseEngine_def goRight_def rightRoutes_def)
qed (simp_all add: currentAction_def)

text \<open>
  What \<^verbatim>\<open>stop()\<close> does otherwise: without a controller it is a no-op, and with a
  controller and a non-empty action name it aborts, clears the session and emits one
  action-ended notification for that action; the current state is not touched.
\<close>

lemma stop_without_session:
  "vf_abortController e = None \<Longrightarrow> stop e = e"
  by (simp add: stop_def)

lemma stop_active_session:
  "vf_abortController e = Some c \<Longrightarrow> vf_currentActionName e = Some n \<Longrightarrow> n \<noteq> [] \<Longrightarrow>
     stop e =
       e\<lparr>vf_controllers := (vf_controllers e)[c := True], vf_abortController := None,
         vf_currentActionName := None, vf_emitted := vf_emitted e @ [ActionEnd n]\<rparr>"
  by (simp add: stop_def emit_def)

section \<open>Playback: failures and the error channel\<close>


lemma silent_iff:
  "silent e e' \<longleftrightarrow> (\<exists>evs. vf_emitted e' = vf_emitted e @ evs \<and> filter isErrorEvent evs = [])"
proof
  assume s: "silent e e'"
  let ?n = "length (vf_emitted e)"
  have "vf_emitted e' = take ?n (vf_emitted e') @ drop ?n (vf_emitted e')" by simp
  with s have "vf_emitted e' = vf_emitted e @ newEvents e e' \<and>
      filter isErrorEvent (newEvents e e') = []"
    by (simp add: silent_def newEvents_def)
  then show "\<exists>evs. vf_emitted e' = vf_emitted e @ evs \<and> filter isErrorEvent evs = []"
    by (rule exI)
next
  assume "\<exists>evs. vf_emitted e' = vf_emitted e @ evs \<and> filter isErrorEvent evs = []"
  then show "silent e e'" by (auto simp: silent_def newEvents_def)
qed

lemma silent_refl [simp]: "silent e e"
  by (simp add: silent_def newEvents_def)


lemma silent_emit: "\<not> isErrorEvent ev \<Longrightarrow> silent e (emit ev e)"
  unfolding silent_iff by (simp add: emit_def)

lemma silent_same_log: "vf_emitted e' = vf_emitted e \<Longrightarrow> silent e e'"
  unfolding silent_iff by simp


lemma currentState_stop [simp]: "vf_currentState (stop e) = vf_currentState e"
  by (simp add: stop_def emit_def Let_def split: option.splits)















lemma stop_config [simp]:
  "vf_actions (stop e) = vf_actions e"
  "vf_routes (stop e) = vf_routes e"
  "vf_ms (stop e) = vf_ms e"
  "vf_validStates (stop e) = vf_validStates e"
  "vf_stateSnapshots (stop e) = vf_stateSnapshots e"
  "length (vf_controllers (stop e)) = length (vf_controllers e)"
  by (simp_all add: stop_def emit_def Let_def split: option.splits)

lemma emit_fields [simp]:
  "vf_actions (emit ev e) = vf_actions e"
  "vf_routes (emit ev e) = vf_routes e"
  "vf_ms (emit ev e) = vf_ms e"
  "vf_validStates (emit ev e) = vf_validStates e"
  "vf_stateSnapshots (emit ev e) = vf_stateSnapshots e"
  "vf_currentState (emit ev e) = vf_currentState e"
  "vf_controllers (emit ev e) = vf_controllers e"
  "vf_abortController (emit ev e) = vf_abortController e"
  "vf_currentActionName (emit ev e) = vf_currentActionName e"
  "vf_emitted (emit ev e) = vf_emitted e @ [ev]"
  by (simp_all add: emit_def)



lemma lookupAction_FoundAction:
  "lookupAction actions name = FoundAction a \<Longrightarrow> actions name = Some a"
  by (auto simp: lookupAction_def split: option.splits if_splits)

















section \<open>Playback: a stop during a tween\<close>

lemma onStateChange_session [simp]:
  "vf_abortController (onStateChange s e) = vf_abortController e"
  "vf_controllers (onStateChange s e) = vf_controllers e"
  "vf_currentActionName (onStateChange s e) = vf_currentActionName e"
  by (simp_all add: onStateChange_def emit_def)

lemma stop_aborts:
  "vf_abortController e = Some c \<Longrightarrow> c < length (vf_controllers e) \<Longrightarrow>
     signalAborted (stop e) c"
  by (simp add: stop_def signalAborted_def emit_def Let_def split: option.splits)

text \<open>
  A call of \<^verbatim>\<open>stop()\<close> during the tween of a step: the steps before it have settled,
  the interrupted step has not, and playback ends with the cancellation.
\<close>

lemma playSteps_interrupted:
  assumes "vf_abortController e = Some c" and "c < length (vf_controllers e)"
    and "\<not> signalAborted e c" and "state ` set (pre @ [st]) \<subseteq> snaps"
  shows "playSteps (pre @ st # post) snaps c l (e, replicate (length pre) Quiet @ CallStop # env) =
           ((stop (settleAll pre e), env), Inl AbortError)"
  using assms
proof (induction pre arbitrary: e l)
  case Nil
  from stop_aborts[OF Nil.prems(1,2)] Nil.prems(3,4) show ?case
    by (simp add: playStep_def)
next
  case (Cons p pre)
  have 1: "vf_abortController (onStateChange (state p) e) = Some c"
    "c < length (vf_controllers (onStateChange (state p) e))"
    "\<not> signalAborted (onStateChange (state p) e) c"
    "state ` set (pre @ [st]) \<subseteq> snaps"
    using Cons.prems by simp_all
  from Cons.IH[OF 1, of "Some (state p)"] Cons.prems(3,4) show ?case
    by (simp add: playStep_def)
qed

lemma interrupted_currentState:
  "vf_currentState (stop (settleAll pre e)) = last (vf_currentState e # map state pre)"
  by (simp add: currentState_settleAll)

section \<open>Transforms: parsing what was built\<close>

declare showNat.simps [simp del]

lemma firstMatch_all_None: "(\<forall>x \<in> set xs. x = None) \<Longrightarrow> firstMatch xs = None"
  by (induction xs rule: firstMatch.induct) auto

lemma firstMatch_append:
  "firstMatch (xs @ ys) = (case firstMatch xs of Some r \<Rightarrow> Some r | None \<Rightarrow> firstMatch ys)"
  by (induction xs rule: firstMatch.induct) auto

lemma numChar_not_space: "numChar c \<Longrightarrow> \<not> spaceChar c"
  by (auto simp: numChar_def spaceChar_def digitChar_def)

declare matchAt.simps [simp del]

lemma matchAt_Lit: "matchAt (Lit l # rest) (l @ t) caps = matchAt rest t caps"
  by (simp add: matchAt.simps)

lemma matchAt_One: "c x \<Longrightarrow> matchAt (OneOf c # rest) (x # t) caps = matchAt rest t caps"
  by (simp add: matchAt.simps)

lemma firstMatch_single [simp]: "firstMatch [x] = x"
  by (cases x) simp_all

lemma matchAt_Star_skip:
  "takeWhile c t = [] \<Longrightarrow> matchAt (StarOf c # rest) t caps = matchAt rest t caps"
  by (simp add: matchAt.simps)

lemma takeWhile_space_num:
  "X \<noteq> [] \<Longrightarrow> list_all numChar X \<Longrightarrow> takeWhile spaceChar (X @ t) = []"
  by (cases X) (auto dest: numChar_not_space)

lemma rev_upt_Suc: "m \<le> n \<Longrightarrow> rev [m..<Suc n] = n # rev [m..<n]"
  by simp

lemma matchAt_CapPlus_greedy:
  assumes "X \<noteq> []" and "list_all c X" and "t = [] \<or> \<not> c (hd t)"
    and "matchAt rest t (caps @ [Some X]) = Some r"
  shows "matchAt (CapPlus c # rest) (X @ t) caps = Some r"
proof -
  have tw: "takeWhile c (X @ t) = X"
  proof (cases t)
    case Nil
    with assms(2) show ?thesis by (simp add: list_all_iff)
  next
    case (Cons y ys)
    with assms(3) have "\<not> c y" by simp
    with Cons assms(2) show ?thesis
      by (simp add: list_all_iff takeWhile_append2)
  qed
  from assms(1) have l: "1 \<le> length X" by (cases X) auto
  let ?f = "\<lambda>k. matchAt rest (drop k (X @ t)) (caps @ [Some (take k (X @ t))])"
  have "matchAt (CapPlus c # rest) (X @ t) caps =
      firstMatch (map ?f (rev [1..<Suc (length X)]))"
    by (simp only: matchAt.simps tw)
  also have "\<dots> = firstMatch (?f (length X) # map ?f (rev [1..<length X]))"
    by (simp only: rev_upt_Suc[OF l] list.map)
  also have "?f (length X) = Some r" using assms(4) by simp
  finally show ?thesis by simp
qed


lemma pair_tail_match:
  assumes "Y \<noteq> []" and "list_all numChar Y"
  shows "matchAt [StarOf spaceChar, OneOf sepChar, StarOf spaceChar, CapPlus numChar,
                  StarOf spaceChar, Lit '')''] ('','' @ Y @ '')'' @ post) caps =
           Some (caps @ [Some Y])"
proof -
  from assms have hy: "takeWhile spaceChar (Y @ '')'' @ post) = []"
    by (rule takeWhile_space_num)
  have 1: "matchAt [StarOf spaceChar, Lit '')''] ('')'' @ post) (caps @ [Some Y]) =
      Some (caps @ [Some Y])"
    by (simp add: spaceChar_def matchAt.simps)
  have 2: "matchAt [CapPlus numChar, StarOf spaceChar, Lit '')''] (Y @ '')'' @ post) caps =
      Some (caps @ [Some Y])"
    using assms 1 by (intro matchAt_CapPlus_greedy) (simp_all add: numChar_def digitChar_def)
  have 3: "matchAt [StarOf spaceChar, CapPlus numChar, StarOf spaceChar, Lit '')'']
      (Y @ '')'' @ post) caps = Some (caps @ [Some Y])"
    unfolding matchAt_Star_skip[OF hy] by (rule 2)
  have 4: "matchAt [OneOf sepChar, StarOf spaceChar, CapPlus numChar, StarOf spaceChar, Lit '')'']
      ('','' @ Y @ '')'' @ post) caps = Some (caps @ [Some Y])"
    using 3 matchAt_One[of sepChar "CHR '',''"] by (simp add: sepChar_def)
  have hc: "takeWhile spaceChar ('','' @ Y @ '')'' @ post) = []" by (simp add: spaceChar_def)
  show ?thesis unfolding matchAt_Star_skip[OF hc] by (rule 4)
qed

lemma translate_match:
  assumes "X \<noteq> []" and "list_all numChar X" and "Y \<noteq> []" and "list_all numChar Y"
  shows "matchAt translateRe (''translate('' @ X @ '','' @ Y @ '')'' @ post) [] =
           Some [Some X, Some Y]"
proof -
  have 1: "matchAt [StarOf spaceChar, OneOf sepChar, StarOf spaceChar, CapPlus numChar,
                  StarOf spaceChar, Lit '')''] ('','' @ Y @ '')'' @ post) ([] @ [Some X]) =
           Some [Some X, Some Y]"
    using pair_tail_match[OF assms(3,4), of post "[Some X]"] by simp
  have 2: "matchAt [CapPlus numChar, StarOf spaceChar, OneOf sepChar, StarOf spaceChar,
                  CapPlus numChar, StarOf spaceChar, Lit '')'']
             (X @ '','' @ Y @ '')'' @ post) [] = Some [Some X, Some Y]"
    using assms(1,2) 1 by (intro matchAt_CapPlus_greedy) (simp_all add: numChar_def digitChar_def)
  from assms(1,2) have hx: "takeWhile spaceChar (X @ '','' @ Y @ '')'' @ post) = []"
    by (rule takeWhile_space_num)
  have 3: "matchAt [StarOf spaceChar, CapPlus numChar, StarOf spaceChar, OneOf sepChar,
                  StarOf spaceChar, CapPlus numChar, StarOf spaceChar, Lit '')'']
             (X @ '','' @ Y @ '')'' @ post) [] = Some [Some X, Some Y]"
    unfolding matchAt_Star_skip[OF hx] by (rule 2)
  show ?thesis
    unfolding translateRe_def using 3 by (simp only: matchAt_Lit)
qed

lemma scale_match:
  assumes "X \<noteq> []" and "list_all numChar X" and "Y \<noteq> []" and "list_all numChar Y"
  shows "matchAt scaleRe (''scale('' @ X @ '','' @ Y @ '')'' @ post) [] =
           Some [Some X, Some Y]"
proof -
  have 1: "matchAt ([StarOf spaceChar, OneOf sepChar, StarOf spaceChar, CapPlus numChar] @
                  [StarOf spaceChar, Lit '')'']) ('','' @ Y @ '')'' @ post) ([] @ [Some X]) =
           Some [Some X, Some Y]"
    using pair_tail_match[OF assms(3,4), of post "[Some X]"] by simp
  then have o: "matchAt [OptGrp [StarOf spaceChar, OneOf sepChar, StarOf spaceChar, CapPlus numChar],
                  StarOf spaceChar, Lit '')''] ('','' @ Y @ '')'' @ post) ([] @ [Some X]) =
           Some [Some X, Some Y]"
    by (simp only: matchAt.simps option.case)
  have 2: "matchAt [CapPlus numChar,
                  OptGrp [StarOf spaceChar, OneOf sepChar, StarOf spaceChar, CapPlus numChar],
                  StarOf spaceChar, Lit '')'']
             (X @ '','' @ Y @ '')'' @ post) [] = Some [Some X, Some Y]"
    using assms(1,2) o by (intro matchAt_CapPlus_greedy) (simp_all add: numChar_def digitChar_def)
  from assms(1,2) have hx: "takeWhile spaceChar (X @ '','' @ Y @ '')'' @ post) = []"
    by (rule takeWhile_space_num)
  have 3: "matchAt [StarOf spaceChar, CapPlus numChar,
                  OptGrp [StarOf spaceChar, OneOf sepChar, StarOf spaceChar, CapPlus numChar],
                  StarOf spaceChar, Lit '')'']
             (X @ '','' @ Y @ '')'' @ post) [] = Some [Some X, Some Y]"
    unfolding matchAt_Star_skip[OF hx] by (rule 2)
  show ?thesis
    unfolding scaleRe_def using 3 by (simp only: matchAt_Lit)
qed

lemma rotate_match:
  assumes "Z \<noteq> []" and "list_all numChar Z"
  shows "matchAt rotateRe (''rotate('' @ Z @ '')'' @ post) [] = Some [Some Z]"
proof -
  have 1: "matchAt [] ('')'' @ post) ([] @ [Some Z]) = Some [Some Z]"
    by (simp add: matchAt.simps)
  have 2: "matchAt [CapPlus numChar] (Z @ '')'' @ post) [] = Some [Some Z]"
    using assms 1 by (intro matchAt_CapPlus_greedy) (simp_all add: numChar_def digitChar_def)
  from assms have hz: "takeWhile spaceChar (Z @ '')'' @ post) = []"
    by (rule takeWhile_space_num)
  have 3: "matchAt [StarOf spaceChar, CapPlus numChar] (Z @ '')'' @ post) [] = Some [Some Z]"
    unfolding matchAt_Star_skip[OF hz] by (rule 2)
  show ?thesis
    unfolding rotateRe_def using 3 by (simp only: matchAt_Lit)
qed

lemma search_absent:
  assumes "ch \<in> set l" and "ch \<notin> set s"
  shows "search (Lit l # rest) s = None"
proof -
  have "matchAt (Lit l # rest) (drop i s) [] = None" for i
  proof -
    have "take (length l) (drop i s) \<noteq> l"
    proof
      assume "take (length l) (drop i s) = l"
      then have "set l \<subseteq> set (drop i s)" by (metis set_take_subset)
      also have "\<dots> \<subseteq> set s" by (rule set_drop_subset)
      finally show False using assms by blast
    qed
    then show ?thesis by (simp add: matchAt.simps)
  qed
  then show ?thesis
    unfolding search_def by (intro firstMatch_all_None) auto
qed

lemma lit_no_early_match:
  assumes "2 \<le> length l" and "l ! 1 \<notin> set pre" and "body = [] \<or> hd body \<noteq> l ! 1"
    and "i < length pre"
  shows "matchAt (Lit l # rest) (drop i (pre @ body)) caps = None"
proof -
  have "take (length l) (drop i (pre @ body)) \<noteq> l"
  proof
    assume e: "take (length l) (drop i (pre @ body)) = l"
    from arg_cong[OF e, of length] have len: "length l \<le> length (pre @ body) - i"
      by simp
    with assms(1) have b: "i + 1 < length (pre @ body)" by simp
    from e have "l ! 1 = take (length l) (drop i (pre @ body)) ! 1" by (simp only:)
    also have "\<dots> = drop i (pre @ body) ! 1" using assms(1) by (intro nth_take) simp
    also have "\<dots> = (pre @ body) ! (i + 1)" using b by (intro nth_drop) simp
    finally have c: "(pre @ body) ! (i + 1) = l ! 1" by (rule sym)
    show False
    proof (cases "i + 1 < length pre")
      case True
      then have "(pre @ body) ! (i + 1) \<in> set pre" by (simp add: nth_append)
      with c assms(2) show False by simp
    next
      case False
      with assms(4) have i: "i + 1 = length pre" by simp
      with b have ne: "body \<noteq> []" by auto
      from i have "(pre @ body) ! (i + 1) = body ! 0" by (simp add: nth_append)
      also have "\<dots> = hd body" using ne by (simp add: hd_conv_nth)
      finally show False using c assms(3) ne by simp
    qed
  qed
  then show ?thesis by (simp add: matchAt.simps)
qed

lemma search_found:
  assumes "\<And>i. i < length pre \<Longrightarrow> matchAt re (drop i (pre @ body)) [] = None"
    and "matchAt re body [] = Some r"
  shows "search re (pre @ body) = Some r"
proof -
  let ?f = "\<lambda>i. matchAt re (drop i (pre @ body)) []"
  let ?n = "length pre"
  have "[0..<?n + Suc (length body)] = [0..<?n] @ [?n..<?n + Suc (length body)]"
    by (intro upt_add_eq_append) simp
  moreover have "[?n..<?n + Suc (length body)] = ?n # [Suc ?n..<?n + Suc (length body)]"
    by (intro upt_conv_Cons) simp
  ultimately have split: "[0..<Suc (length (pre @ body))] =
      [0..<?n] @ ?n # [Suc ?n..<Suc (length (pre @ body))]"
    by simp
  have none: "firstMatch (map ?f [0..<?n]) = None"
    using assms(1) by (intro firstMatch_all_None) auto
  have at: "?f ?n = Some r" using assms(2) by simp
  have "search re (pre @ body) =
      firstMatch (map ?f [0..<?n] @ ?f ?n # map ?f [Suc ?n..<Suc (length (pre @ body))])"
    unfolding search_def split by (simp only: map_append list.map)
  also have "\<dots> = Some r"
    unfolding firstMatch_append none at by simp
  finally show ?thesis .
qed


lemma numChar_letters: "\<not> numChar CHR ''n''" "\<not> numChar CHR ''o''" "\<not> numChar CHR ''c''"
  by (simp_all add: numChar_def digitChar_def)

lemma numChar_excludes:
  assumes "list_all numChar X"
  shows "CHR ''n'' \<notin> set X" and "CHR ''o'' \<notin> set X" and "CHR ''c'' \<notin> set X"
  using assms numChar_letters unfolding list_all_iff by blast+

lemma translate_found:
  assumes "X \<noteq> []" and "list_all numChar X" and "Y \<noteq> []" and "list_all numChar Y"
  shows "search translateRe ((''translate('' @ X @ '','' @ Y @ '')'') @ post) =
           Some [Some X, Some Y]"
proof -
  have "search translateRe ([] @ (''translate('' @ X @ '','' @ Y @ '')'' @ post)) =
      Some [Some X, Some Y]"
    by (rule search_found) (simp, rule translate_match[OF assms])
  then show ?thesis by simp
qed

lemma rotate_found:
  assumes "Z \<noteq> []" and "list_all numChar Z" and "CHR ''o'' \<notin> set pre"
  shows "search rotateRe (pre @ (''rotate('' @ Z @ '')'') @ post) = Some [Some Z]"
proof -
  have "search rotateRe (pre @ (''rotate('' @ Z @ '')'' @ post)) = Some [Some Z]"
  proof (rule search_found)
    fix i assume "i < length pre"
    then show "matchAt rotateRe (drop i (pre @ ''rotate('' @ Z @ '')'' @ post)) [] = None"
      unfolding rotateRe_def using assms(3) by (intro lit_no_early_match) simp_all
  next
    show "matchAt rotateRe (''rotate('' @ Z @ '')'' @ post) [] = Some [Some Z]"
      by (rule rotate_match[OF assms(1,2)])
  qed
  then show ?thesis by simp
qed

lemma scale_found:
  assumes "X \<noteq> []" and "list_all numChar X" and "Y \<noteq> []" and "list_all numChar Y"
    and "CHR ''c'' \<notin> set pre"
  shows "search scaleRe (pre @ (''scale('' @ X @ '','' @ Y @ '')'') @ post) =
           Some [Some X, Some Y]"
proof -
  have "search scaleRe (pre @ (''scale('' @ X @ '','' @ Y @ '')'' @ post)) =
      Some [Some X, Some Y]"
  proof (rule search_found)
    fix i assume "i < length pre"
    then show "matchAt scaleRe (drop i (pre @ ''scale('' @ X @ '','' @ Y @ '')'' @ post)) [] = None"
      unfolding scaleRe_def using assms(5) by (intro lit_no_early_match) simp_all
  next
    show "matchAt scaleRe (''scale('' @ X @ '','' @ Y @ '')'' @ post) [] = Some [Some X, Some Y]"
      by (rule scale_match[OF assms(1-4)])
  qed
  then show ?thesis by simp
qed

lemma translate_absent: "CHR ''n'' \<notin> set s \<Longrightarrow> search translateRe s = None"
  unfolding translateRe_def by (rule search_absent[of "CHR ''n''"]) simp_all

lemma rotate_absent: "CHR ''o'' \<notin> set s \<Longrightarrow> search rotateRe s = None"
  unfolding rotateRe_def by (rule search_absent[of "CHR ''o''"]) simp_all

lemma scale_absent: "CHR ''c'' \<notin> set s \<Longrightarrow> search scaleRe s = None"
  unfolding scaleRe_def by (rule search_absent[of "CHR ''c''"]) simp_all


lemma round_trip:
  assumes "plainDecimal str pf (translateX c)" and "plainDecimal str pf (translateY c)"
    and "plainDecimal str pf (scaleX c)" and "plainDecimal str pf (scaleY c)"
    and "plainDecimal str pf (rotateDeg c)"
  shows "parseTransform pf (buildTransform str c) = c"
proof -
  define T where "T = ''translate('' @ str (translateX c) @ '','' @ str (translateY c) @ '')''"
  define R where "R = ''rotate('' @ str (rotateDeg c) @ '')''"
  define S where "S = ''scale('' @ str (scaleX c) @ '','' @ str (scaleY c) @ '')''"
  from assms have
    px: "str (translateX c) \<noteq> []" "list_all numChar (str (translateX c))" and
    py: "str (translateY c) \<noteq> []" "list_all numChar (str (translateY c))" and
    pa: "str (scaleX c) \<noteq> []" "list_all numChar (str (scaleX c))" and
    pb: "str (scaleY c) \<noteq> []" "list_all numChar (str (scaleY c))" and
    pz: "str (rotateDeg c) \<noteq> []" "list_all numChar (str (rotateDeg c))" and
    rt: "pf (str (translateX c)) = translateX c" "pf (str (translateY c)) = translateY c"
        "pf (str (scaleX c)) = scaleX c" "pf (str (scaleY c)) = scaleY c"
        "pf (str (rotateDeg c)) = rotateDeg c"
    by (simp_all add: plainDecimal_def)
  have neT: "T \<noteq> []" and neR: "R \<noteq> []" and neS: "S \<noteq> []"
    by (simp_all add: T_def R_def S_def)
  have oT: "CHR ''o'' \<notin> set T" and cT: "CHR ''c'' \<notin> set T"
    using numChar_excludes[OF px(2)] numChar_excludes[OF py(2)] by (simp_all add: T_def)
  have nR: "CHR ''n'' \<notin> set R" and cR: "CHR ''c'' \<notin> set R"
    using numChar_excludes[OF pz(2)] by (simp_all add: R_def)
  have nS: "CHR ''n'' \<notin> set S" and oS: "CHR ''o'' \<notin> set S"
    using numChar_excludes[OF pa(2)] numChar_excludes[OF pb(2)] by (simp_all add: S_def)
  have fT: "search translateRe (T @ post) =
      Some [Some (str (translateX c)), Some (str (translateY c))]" for post
    unfolding T_def by (rule translate_found[OF px py])
  have fR: "CHR ''o'' \<notin> set pre \<Longrightarrow>
      search rotateRe (pre @ R @ post) = Some [Some (str (rotateDeg c))]" for pre post
    unfolding R_def by (rule rotate_found[OF pz])
  have fS: "CHR ''c'' \<notin> set pre \<Longrightarrow>
      search scaleRe (pre @ S @ post) =
        Some [Some (str (scaleX c)), Some (str (scaleY c))]" for pre post
    unfolding S_def by (rule scale_found[OF pa pb])
  have case_111: "parseTransform pf (Some (T @ '' '' @ R @ '' '' @ S)) =
      identityTransform\<lparr>translateX := translateX c, translateY := translateY c, scaleX := scaleX c, scaleY := scaleY c, rotateDeg := rotateDeg c\<rparr>"
  proof -
    have ne: "T @ '' '' @ R @ '' '' @ S \<noteq> []" using neT neR neS by simp
    have st: "search translateRe (T @ '' '' @ R @ '' '' @ S) = Some [Some (str (translateX c)), Some (str (translateY c))]"
      using fT[of "'' '' @ R @ '' '' @ S"] by simp
    have sr: "search rotateRe (T @ '' '' @ R @ '' '' @ S) = Some [Some (str (rotateDeg c))]"
      using fR[of "T @ '' ''" "'' '' @ S"] by (simp add: oT)
    have ss: "search scaleRe (T @ '' '' @ R @ '' '' @ S) = Some [Some (str (scaleX c)), Some (str (scaleY c))]"
      using fS[of "T @ '' '' @ R @ '' ''" "[]"] by (simp add: cT cR)
    show ?thesis
      using ne st sr ss by (simp add: parseTransform_def Let_def rt)
  qed
  have case_110: "parseTransform pf (Some (T @ '' '' @ R)) =
      identityTransform\<lparr>translateX := translateX c, translateY := translateY c, rotateDeg := rotateDeg c\<rparr>"
  proof -
    have ne: "T @ '' '' @ R \<noteq> []" using neT neR neS by simp
    have st: "search translateRe (T @ '' '' @ R) = Some [Some (str (translateX c)), Some (str (translateY c))]"
      using fT[of "'' '' @ R"] by simp
    have sr: "search rotateRe (T @ '' '' @ R) = Some [Some (str (rotateDeg c))]"
      using fR[of "T @ '' ''" "[]"] by (simp add: oT)
    have ss: "search scaleRe (T @ '' '' @ R) = None"
      by (rule scale_absent) (simp add: cT cR)
    show ?thesis
      using ne st sr ss by (simp add: parseTransform_def Let_def rt)
  qed
  have case_101: "parseTransform pf (Some (T @ '' '' @ S)) =
      identityTransform\<lparr>translateX := translateX c, translateY := translateY c, scaleX := scaleX c, scaleY := scaleY c\<rparr>"
  proof -
    have ne: "T @ '' '' @ S \<noteq> []" using neT neR neS by simp
    have st: "search translateRe (T @ '' '' @ S) = Some [Some (str (translateX c)), Some (str (translateY c))]"
      using fT[of "'' '' @ S"] by simp
    have sr: "search rotateRe (T @ '' '' @ S) = None"
      by (rule rotate_absent) (simp add: oT oS)
    have ss: "search scaleRe (T @ '' '' @ S) = Some [Some (str (scaleX c)), Some (str (scaleY c))]"
      using fS[of "T @ '' ''" "[]"] by (simp add: cT cR)
    show ?thesis
      using ne st sr ss by (simp add: parseTransform_def Let_def rt)
  qed
  have case_100: "parseTransform pf (Some (T)) =
      identityTransform\<lparr>translateX := translateX c, translateY := translateY c\<rparr>"
  proof -
    have ne: "T \<noteq> []" using neT neR neS by simp
    have st: "search translateRe (T) = Some [Some (str (translateX c)), Some (str (translateY c))]"
      using fT[of "[]"] by simp
    have sr: "search rotateRe (T) = None"
      by (rule rotate_absent) (simp add: oT oS)
    have ss: "search scaleRe (T) = None"
      by (rule scale_absent) (simp add: cT cR)
    show ?thesis
      using ne st sr ss by (simp add: parseTransform_def Let_def rt)
  qed
  have case_011: "parseTransform pf (Some (R @ '' '' @ S)) =
      identityTransform\<lparr>scaleX := scaleX c, scaleY := scaleY c, rotateDeg := rotateDeg c\<rparr>"
  proof -
    have ne: "R @ '' '' @ S \<noteq> []" using neT neR neS by simp
    have st: "search translateRe (R @ '' '' @ S) = None"
      by (rule translate_absent) (simp add: nR nS)
    have sr: "search rotateRe (R @ '' '' @ S) = Some [Some (str (rotateDeg c))]"
      using fR[of "[]" "'' '' @ S"] by (simp add: oT)
    have ss: "search scaleRe (R @ '' '' @ S) = Some [Some (str (scaleX c)), Some (str (scaleY c))]"
      using fS[of "R @ '' ''" "[]"] by (simp add: cT cR)
    show ?thesis
      using ne st sr ss by (simp add: parseTransform_def Let_def rt)
  qed
  have case_010: "parseTransform pf (Some (R)) =
      identityTransform\<lparr>rotateDeg := rotateDeg c\<rparr>"
  proof -
    have ne: "R \<noteq> []" using neT neR neS by simp
    have st: "search translateRe (R) = None"
      by (rule translate_absent) (simp add: nR nS)
    have sr: "search rotateRe (R) = Some [Some (str (rotateDeg c))]"
      using fR[of "[]" "[]"] by (simp add: oT)
    have ss: "search scaleRe (R) = None"
      by (rule scale_absent) (simp add: cT cR)
    show ?thesis
      using ne st sr ss by (simp add: parseTransform_def Let_def rt)
  qed
  have case_001: "parseTransform pf (Some (S)) =
      identityTransform\<lparr>scaleX := scaleX c, scaleY := scaleY c\<rparr>"
  proof -
    have ne: "S \<noteq> []" using neT neR neS by simp
    have st: "search translateRe (S) = None"
      by (rule translate_absent) (simp add: nR nS)
    have sr: "search rotateRe (S) = None"
      by (rule rotate_absent) (simp add: oT oS)
    have ss: "search scaleRe (S) = Some [Some (str (scaleX c)), Some (str (scaleY c))]"
      using fS[of "[]" "[]"] by (simp add: cT cR)
    show ?thesis
      using ne st sr ss by (simp add: parseTransform_def Let_def rt)
  qed
  have build: "buildTransform str c =
      (let parts = (if translateX c \<noteq> 0 \<or> translateY c \<noteq> 0 then [T] else []) @
                   (if rotateDeg c \<noteq> 0 then [R] else []) @
                   (if scaleX c \<noteq> 1 \<or> scaleY c \<noteq> 1 then [S] else [])
       in if parts = [] then None else Some (joinSpace parts))"
    by (simp add: buildTransform_def Let_def T_def R_def S_def)
  have none: "parseTransform pf None = identityTransform"
    by (simp add: parseTransform_def)
  show ?thesis
    unfolding build Let_def
    using case_111 case_110 case_101 case_100 case_011 case_010 case_001 none
    by (cases "translateX c \<noteq> 0 \<or> translateY c \<noteq> 0"; cases "rotateDeg c \<noteq> 0";
        cases "scaleX c \<noteq> 1 \<or> scaleY c \<noteq> 1")
       (simp_all add: identityTransform_def)
qed

lemma parse_example:
  "parseTransform pf (Some ''translate(10, 20) scale(2)'') =
     identityTransform\<lparr>translateX := pf ''10'', translateY := pf ''20'',
                       scaleX := pf ''2'', scaleY := pf ''2''\<rparr>"
  by (simp add: parseTransform_def search_def matchAt.simps translateRe_def scaleRe_def
      rotateRe_def spaceChar_def numChar_def digitChar_def sepChar_def Let_def)

text \<open>
  C9. parseTransform decomposes a transform string into the five channels, an absent or
  empty transform into the identity (0,0,1,1,0), and a scale with one argument into equal
  scales. buildTransform writes the groups in the order translate, rotate, scale, separated
  by a space, and leaves out every group that is at its identity value; for the identity it
  returns null. For every record whose five values are written in plain decimal form,
  parsing what buildTransform wrote gives the record back.
\<close>

theorem transform_round_trip:
  assumes "plainDecimal str pf (translateX c)" and "plainDecimal str pf (translateY c)"
    and "plainDecimal str pf (scaleX c)" and "plainDecimal str pf (scaleY c)"
    and "plainDecimal str pf (rotateDeg c)"
  shows "parseTransform pf (buildTransform str c) = c \<and>
         parseTransform pf None = identityTransform \<and>
         parseTransform pf (Some []) = identityTransform \<and>
         parseTransform pf (Some ''translate(10, 20) scale(2)'') =
           identityTransform\<lparr>translateX := pf ''10'', translateY := pf ''20'',
                             scaleX := pf ''2'', scaleY := pf ''2''\<rparr> \<and>
         buildTransform str identityTransform = None \<and>
         buildTransform str c =
           (let parts =
              (if translateX c \<noteq> 0 \<or> translateY c \<noteq> 0
               then [''translate('' @ str (translateX c) @ '','' @ str (translateY c) @ '')'']
               else []) @
              (if rotateDeg c \<noteq> 0 then [''rotate('' @ str (rotateDeg c) @ '')''] else []) @
              (if scaleX c \<noteq> 1 \<or> scaleY c \<noteq> 1
               then [''scale('' @ str (scaleX c) @ '','' @ str (scaleY c) @ '')'']
               else [])
            in if parts = [] then None else Some (joinSpace parts))"
proof -
  have 1: "parseTransform pf (buildTransform str c) = c"
    using assms by (rule round_trip)
  have 2: "parseTransform pf None = identityTransform"
    "parseTransform pf (Some []) = identityTransform"
    by (simp_all add: parseTransform_def)
  have 3: "buildTransform str identityTransform = None"
    by (simp add: buildTransform_def identityTransform_def)
  have 4: "buildTransform str c =
           (let parts =
              (if translateX c \<noteq> 0 \<or> translateY c \<noteq> 0
               then [''translate('' @ str (translateX c) @ '','' @ str (translateY c) @ '')'']
               else []) @
              (if rotateDeg c \<noteq> 0 then [''rotate('' @ str (rotateDeg c) @ '')''] else []) @
              (if scaleX c \<noteq> 1 \<or> scaleY c \<noteq> 1
               then [''scale('' @ str (scaleX c) @ '','' @ str (scaleY c) @ '')'']
               else [])
            in if parts = [] then None else Some (joinSpace parts))"
    by (simp add: buildTransform_def Let_def)
  from 1 2 3 4 parse_example show ?thesis by blast
qed

theorem transform_round_trip_witness:
  "buildTransform showInt
       \<lparr>translateX = 10, translateY = - 5, scaleX = 2, scaleY = 1, rotateDeg = 0\<rparr> =
     Some ''translate(10,-5) scale(2,1)'' \<and>
   parseTransform readInt
       (buildTransform showInt
          \<lparr>translateX = 10, translateY = - 5, scaleX = 2, scaleY = 1, rotateDeg = 0\<rparr>) =
     \<lparr>translateX = 10, translateY = - 5, scaleX = 2, scaleY = 1, rotateDeg = 0\<rparr>"
proof -
  let ?c = "\<lparr>translateX = 10, translateY = - 5, scaleX = 2, scaleY = 1, rotateDeg = 0::int\<rparr>"
  have p: "plainDecimal showInt readInt 10" "plainDecimal showInt readInt (- 5)"
    "plainDecimal showInt readInt 2" "plainDecimal showInt readInt 1"
    "plainDecimal showInt readInt 0"
    by (simp_all add: plainDecimal_def showInt_def showNat.simps readInt_def readNat_def
        digitValue_def numChar_def digitChar_def)
  have b: "buildTransform showInt ?c = Some ''translate(10,-5) scale(2,1)''"
    by (simp add: buildTransform_def showInt_def showNat.simps)
  have h: "plainDecimal showInt readInt (translateX ?c)"
    "plainDecimal showInt readInt (translateY ?c)"
    "plainDecimal showInt readInt (scaleX ?c)"
    "plainDecimal showInt readInt (scaleY ?c)"
    "plainDecimal showInt readInt (rotateDeg ?c)"
    using p by simp_all
  have "parseTransform readInt (buildTransform showInt ?c) = ?c"
    using transform_round_trip[OF h] by (rule conjunct1)
  with b show ?thesis by blast
qed

end
